theory Spec2Isabelle
  imports Main "HOL-Library.Sublist"
begin

text \<open>
  A shallow embedding of the build configuration of the \<^verbatim>\<open>sinuous\<close> packages.
  The sources hold three revisions of the configuration.  The model follows
  the one that defines \<^verbatim>\<open>mk\<close>, \<^verbatim>\<open>makeBundleConfigs\<close> and
  \<^verbatim>\<open>pluginReplaceImportsESM\<close> together.  The revision
  \<^verbatim>\<open>scripts/bundles.js\<close> has the same \<^verbatim>\<open>makeBundleConfigs\<close> and plugins, but
  spells the expansion out with \<^verbatim>\<open>map\<close> in place of \<^verbatim>\<open>mk\<close>, calls
  \<^verbatim>\<open>dest(name, format)\<close> with a \<^verbatim>\<open>name\<close> it never binds, and never appends to
  \<^verbatim>\<open>bundleNames\<close>; the third is an older list of descriptors without any
  expansion code.

  JavaScript objects are modelled by records with optional fields
  (\<open>None\<close> for a key that is absent), strings by \<open>string\<close>, exceptions by
  the left summand of a sum type.  Of a config object only the keys that the
  declared descriptors and the configuration code use are kept.  A key that
  holds \<^verbatim>\<open>undefined\<close> is not told apart from an absent key; the two differ
  under object spread only, so the objects spread here are taken to hold no
  key with the value \<^verbatim>\<open>undefined\<close>.
\<close>

section \<open>Format registry and naming convention\<close>

text \<open>
  The build configuration names its four output formats by strings
  (\<^verbatim>\<open>bundleFormatVariables\<close>) and keeps the file extension of each in the
  object \<^verbatim>\<open>ext\<close>.  A lookup of a key that is not in the object gives
  \<^verbatim>\<open>undefined\<close>, which a template literal prints as the nine letters
  \<^verbatim>\<open>undefined\<close>.  (Formats are Rollup's module format names; none of them
  is a name that every JavaScript object inherits, such as \<^verbatim>\<open>toString\<close>,
  for which the lookup would find the inherited value.)
\<close>

definition CJS :: string where "CJS = ''cjs''"
definition ESM :: string where "ESM = ''esm''"
definition IIFE :: string where "IIFE = ''iife''"
definition UMD :: string where "UMD = ''umd''"

lemmas format_defs = CJS_def ESM_def IIFE_def UMD_def

definition ext :: "(string \<times> string) list" where
  "ext = [(CJS, ''js''), (ESM, ''js''), (IIFE, ''min.js''), (UMD, ''js'')]"

definition js_str :: "string option \<Rightarrow> string" where
  "js_str v = (case v of None \<Rightarrow> ''undefined'' | Some s \<Rightarrow> s)"

definition src :: string where "src = ''packages/sinuous''"

definition dest :: "string \<Rightarrow> string \<Rightarrow> string" where
  "dest name format =
     src @ ''/dist/'' @ format @ ''/'' @ name @ ''.'' @ js_str (map_of ext format)"

section \<open>Configuration objects\<close>

text \<open>
  Regular expressions of the rewrite rules are kept as data: a pattern is a
  sequence of items, each a character class with a quantifier and the number
  of the capture group it lies in (0 for none).  The replacement callbacks of
  the source are template literals over the captured groups and are kept as
  templates.
\<close>

datatype cclass = Lit char | Dot | Cls "(char \<times> char) list"

datatype quant = One | Plus | PlusLazy

datatype item = Item quant cclass nat

datatype tpart = Txt string | Grp nat

datatype search = Rx "item list" | RegExp_new string

record replacement =
  search :: search
  eachMatch :: "tpart list"

text \<open>
  A search is a regular expression literal of the source (\<open>Rx\<close>) or one that
  \<^verbatim>\<open>new RegExp(string, 'g')\<close> compiles when the configuration runs
  (\<open>RegExp_new\<close>, with the string).  A plugin is kept as the call that makes
  it: \<^verbatim>\<open>replace(rules, options)\<close> with its rules and its \<^verbatim>\<open>sourcemap\<close>
  option (\<open>None\<close> when the call passes no options), the other plugins by
  name, the size report with the format it prints.  The \<^verbatim>\<open>sourcemap\<close> option
  of an output is kept as a truth value.
\<close>

datatype plugin =
    NodeResolve
  | Babel
  | BundleSize "string option"
  | Terser
  | Replace "replacement list" "bool option"
  | Other string

record output_options =
  o_file :: "string option"
  o_format :: "string option"
  o_name :: "string option"
  o_sourcemap :: "bool option"
  o_extend :: "bool option"
  o_plugins :: "plugin list option"
  o_strict :: "bool option"
  o_interop :: "bool option"
  o_freeze :: "bool option"
  o_esModule :: "bool option"

record config_snippet =
  s_input :: "string option"
  s_external :: "string list option"
  s_output :: "output_options option"

record rollup_options =
  r_input :: "string option"
  r_external :: "string list option"
  r_output :: output_options

definition no_output :: output_options where
  "no_output = \<lparr>o_file = None, o_format = None, o_name = None, o_sourcemap = None,
     o_extend = None, o_plugins = None, o_strict = None, o_interop = None,
     o_freeze = None, o_esModule = None\<rparr>"

text \<open>
  Object spread: in \<^verbatim>\<open>{...a, ...b}\<close> a key of \<^verbatim>\<open>b\<close> wins over the same key
  of \<^verbatim>\<open>a\<close>.
\<close>

definition later :: "'a option \<Rightarrow> 'a option \<Rightarrow> 'a option" where
  "later a b = (case b of None \<Rightarrow> a | Some v \<Rightarrow> Some v)"

definition spread :: "output_options \<Rightarrow> output_options \<Rightarrow> output_options" where
  "spread a b = \<lparr>o_file = later (o_file a) (o_file b),
     o_format = later (o_format a) (o_format b),
     o_name = later (o_name a) (o_name b),
     o_sourcemap = later (o_sourcemap a) (o_sourcemap b),
     o_extend = later (o_extend a) (o_extend b),
     o_plugins = later (o_plugins a) (o_plugins b),
     o_strict = later (o_strict a) (o_strict b),
     o_interop = later (o_interop a) (o_interop b),
     o_freeze = later (o_freeze a) (o_freeze b),
     o_esModule = later (o_esModule a) (o_esModule b)\<rparr>"

section \<open>Matrix expansion\<close>

text \<open>
  \<^verbatim>\<open>mk(name, formats, configSnippet)\<close> walks the formats in order.  Each round
  appends the name to the module-level array \<^verbatim>\<open>bundleNames\<close> and one
  single-format config to \<^verbatim>\<open>perFormatConfigs\<close>.  The array
  \<^verbatim>\<open>bundleNames\<close> is threaded through as state.
\<close>

definition mk_config :: "string \<Rightarrow> config_snippet \<Rightarrow> string \<Rightarrow> rollup_options" where
  "mk_config name configSnippet format =
     \<lparr>r_input = s_input configSnippet,
      r_external = s_external configSnippet,
      r_output = spread (no_output\<lparr>o_file := Some (dest name format), o_format := Some format\<rparr>)
                   (case s_output configSnippet of None \<Rightarrow> no_output | Some out \<Rightarrow> out)\<rparr>"

fun mk_loop :: "string \<Rightarrow> config_snippet \<Rightarrow> string list
    \<Rightarrow> rollup_options list \<times> string list \<Rightarrow> rollup_options list \<times> string list" where
  "mk_loop name configSnippet [] (perFormatConfigs, bundleNames) =
     (perFormatConfigs, bundleNames)"
| "mk_loop name configSnippet (format # formats) (perFormatConfigs, bundleNames) =
     mk_loop name configSnippet formats
       (perFormatConfigs @ [mk_config name configSnippet format], bundleNames @ [name])"

definition mk :: "string \<Rightarrow> string list \<Rightarrow> config_snippet \<Rightarrow> string list
    \<Rightarrow> rollup_options list \<times> string list" where
  "mk name formats configSnippet bundleNames =
     mk_loop name configSnippet formats ([], bundleNames)"

text \<open>The fifteen \<^verbatim>\<open>mk(...)\<close> calls of \<^verbatim>\<open>bundleSnippets\<close>, as their arguments.\<close>

definition snip :: "string \<Rightarrow> string list option \<Rightarrow> output_options option \<Rightarrow> config_snippet" where
  "snip i e out = \<lparr>s_input = Some (src @ i), s_external = e, s_output = out\<rparr>"

definition named :: "string \<Rightarrow> output_options" where
  "named n = no_output\<lparr>o_name := Some n\<rparr>"

definition descriptors :: "(string \<times> string list \<times> config_snippet) list" where
  "descriptors =
    [(''htm'', [ESM, UMD, IIFE],
        snip ''/htm/src/index.js'' None (Some (named ''htm''))),
     (''hydrate'', [ESM, UMD, IIFE],
        snip ''/hydrate/src/index.js'' (Some [''sinuous'', ''sinuous/htm''])
          (Some (named ''hydrate''))),
     (''observable'', [ESM, UMD, IIFE],
        snip ''/observable/src/observable.js'' None (Some (named ''observable''))),
     (''h'', [ESM, UMD, IIFE],
        snip ''/h/src/index.js'' None (Some (named ''h''))),
     (''template'', [ESM, UMD, IIFE],
        snip ''/template/src/template.js'' (Some [''sinuous''])
          (Some (named ''template''))),
     (''data'', [ESM, UMD, IIFE],
        snip ''/data/src/data.js'' (Some [''sinuous'', ''sinuous/template''])
          (Some (named ''data''))),
     (''memo'', [ESM, UMD, IIFE],
        snip ''/memo/src/memo.js'' None (Some (named ''memo''))),
     (''render'', [ESM, UMD, IIFE],
        snip ''/render/src/index.js''
          (Some [''sinuous'', ''sinuous/template'', ''sinuous/htm''])
          (Some (named ''render''))),
     (''map/mini'', [ESM, UMD, IIFE],
        snip ''/map/mini/src/mini.js'' (Some [''sinuous'']) (Some (named ''mini''))),
     (''map'', [ESM, UMD, IIFE],
        snip ''/map/src/index.js'' (Some [''sinuous'']) (Some (named ''map''))),
     (''sinuous'', [ESM, UMD, IIFE],
        snip ''/src/index.js'' (Some [''sinuous/observable'', ''sinuous/htm''])
          (Some (named ''sinuous''))),
     (''sinuous-observable'', [ESM],
        snip ''/src/index.js'' (Some [''sinuous/htm''])
          (Some (no_output\<lparr>o_sourcemap := Some False\<rparr>))),
     (''jsx'', [ESM, UMD, IIFE],
        snip ''/jsx/index.js'' (Some [''sinuous/observable'']) (Some (named ''sinuous''))),
     (''babel-plugin-htm'', [ESM, CJS],
        snip ''/babel-plugin-htm/src/index.js'' None None),
     (''all'', [ESM, UMD, IIFE],
        snip ''/all/src/index.js'' None
          (Some (no_output\<lparr>o_name := Some ''window'', o_extend := Some True\<rparr>)))]"

fun mk_all :: "(string \<times> string list \<times> config_snippet) list \<Rightarrow> string list
    \<Rightarrow> rollup_options list \<times> string list" where
  "mk_all [] bundleNames = ([], bundleNames)"
| "mk_all ((name, formats, configSnippet) # others) bundleNames =
     (let (configs, bundleNames') = mk name formats configSnippet bundleNames;
          (rest, bundleNames'') = mk_all others bundleNames'
      in (configs @ rest, bundleNames''))"

definition bundleSnippets :: "rollup_options list" where
  "bundleSnippets = fst (mk_all descriptors [])"

definition bundleNames :: "string list" where
  "bundleNames = snd (mk_all descriptors [])"

section \<open>Paths and string replacement\<close>

text \<open>
  The functions \<^verbatim>\<open>path.basename\<close> and \<^verbatim>\<open>path.relative\<close> belong to the
  runtime, not to this repository; they are modelled for POSIX paths after their
  documented behaviour.  A resolved path is the list of its segments below the
  root.  The working directory, against which relative paths are resolved, is a
  parameter.
\<close>

definition basename :: "string \<Rightarrow> string" where
  "basename p =
     rev (takeWhile (\<lambda>c. c \<noteq> CHR ''/'') (dropWhile (\<lambda>c. c = CHR ''/'') (rev p)))"

fun split_on :: "char \<Rightarrow> string \<Rightarrow> string list" where
  "split_on c [] = [[]]"
| "split_on c (x # xs) =
     (if x = c then [] # split_on c xs
      else (case split_on c xs of [] \<Rightarrow> [[x]] | s # ss \<Rightarrow> (x # s) # ss))"

fun normalize_segs :: "string list \<Rightarrow> string list \<Rightarrow> string list" where
  "normalize_segs acc [] = rev acc"
| "normalize_segs acc (s # ss) =
     (if s = [] \<or> s = ''.'' then normalize_segs acc ss
      else if s = ''..'' then normalize_segs (tl acc) ss
      else normalize_segs (s # acc) ss)"

definition resolve :: "string \<Rightarrow> string \<Rightarrow> string list" where
  "resolve cwd p =
     normalize_segs []
       (split_on CHR ''/'' (if take 1 p = ''/'' then p else cwd @ ''/'' @ p))"

fun common :: "string list \<Rightarrow> string list \<Rightarrow> nat" where
  "common (x # xs) (y # ys) = (if x = y then Suc (common xs ys) else 0)"
| "common xs ys = 0"

fun join :: "string \<Rightarrow> string list \<Rightarrow> string" where
  "join sep [] = []"
| "join sep [s] = s"
| "join sep (s # t # ss) = s @ sep @ join sep (t # ss)"

definition relative :: "string \<Rightarrow> string \<Rightarrow> string \<Rightarrow> string" where
  "relative cwd from_path to_path =
     (if from_path = to_path then []
      else let f = resolve cwd from_path; t = resolve cwd to_path
           in if f = t then []
              else let k = common f t
                   in join ''/'' (replicate (length f - k) ''..'' @ drop k t))"

text \<open>
  \<^verbatim>\<open>String.prototype.replace\<close> with a string pattern replaces the first
  occurrence only.
\<close>

fun replace_first :: "string \<Rightarrow> string \<Rightarrow> string \<Rightarrow> string" where
  "replace_first pat rep [] = (if pat = [] then rep else [])"
| "replace_first pat rep (x # xs) =
     (if prefix pat (x # xs) then rep @ drop (length pat) (x # xs)
      else x # replace_first pat rep xs)"

section \<open>The import rewrite plugin\<close>

text \<open>
  The configuration code can raise two exceptions.  \<^verbatim>\<open>path.relative\<close> rejects
  an argument that is not a string with a \<^verbatim>\<open>TypeError\<close>.
  \<^verbatim>\<open>new RegExp(source, 'g')\<close> rejects a source that is not a pattern with a
  \<^verbatim>\<open>SyntaxError\<close>.  \<^verbatim>\<open>RewriteFailureError\<close> is the failure of the rewrite
  engine below.  \<^verbatim>\<open>Boolean(undefined)\<close> is \<^verbatim>\<open>false\<close>.
\<close>

datatype error = TypeError | SyntaxError | RewriteFailureError

text \<open>
  The \<^verbatim>\<open>RegExp\<close> constructor belongs to the runtime.  A source without any of
  the characters that have a meaning in a pattern (the backslash and
  \<^verbatim>\<open>^ $ . * + ? ( ) [ ] { } |\<close>) is a pattern, the one of its literal text.
  Whether any other source is a pattern is the parameter \<open>valid\<close> of the model.
\<close>

definition special :: string where
  "special = CHR 0x5C # ''^$.*+?()[]{}|''"

definition plain_source :: "string \<Rightarrow> bool" where
  "plain_source source = list_all (\<lambda>c. c \<notin> set special) source"

definition regexp_ok :: "(string \<Rightarrow> bool) \<Rightarrow> string \<Rightarrow> bool" where
  "regexp_ok valid source = (plain_source source \<or> valid source)"

definition depPath :: "string \<Rightarrow> string \<Rightarrow> string \<Rightarrow> string \<Rightarrow> string" where
  "depPath cwd file format dep =
     replace_first ''./..'' ''..''
       (replace_first ''..'' ''.'' (relative cwd file (dest (basename dep) format)))"

definition import_source :: "string \<Rightarrow> string" where
  \<open>import_source dep = ''from"'' @ dep @ ''"''\<close>

definition import_rule :: "string \<Rightarrow> string \<Rightarrow> replacement" where
  \<open>import_rule dep path =
     \<lparr>search = RegExp_new (import_source dep),
      eachMatch = [Txt (''from"'' @ path @ ''"'')]\<rparr>\<close>

text \<open>
  The loop over the externals.  Each round computes the path first
  (\<^verbatim>\<open>path.relative\<close> on the job's file) and compiles the search second; the
  first exception ends the loop.  The rules come out in the order of the
  externals.
\<close>

fun import_rules :: "(string \<Rightarrow> bool) \<Rightarrow> string \<Rightarrow> string option \<Rightarrow> string \<Rightarrow> string list
    \<Rightarrow> error + replacement list" where
  "import_rules valid cwd file format [] = Inr []"
| "import_rules valid cwd file format (dep # deps) =
     (case file of
        None \<Rightarrow> Inl TypeError
      | Some fl \<Rightarrow>
          if \<not> regexp_ok valid (import_source dep) then Inl SyntaxError
          else (case import_rules valid cwd file format deps of
                  Inl e \<Rightarrow> Inl e
                | Inr replacements \<Rightarrow>
                    Inr (import_rule dep (depPath cwd fl format dep) # replacements)))"

definition pluginReplaceImportsESM :: "(string \<Rightarrow> bool) \<Rightarrow> string \<Rightarrow> rollup_options
    \<Rightarrow> error + plugin option" where
  "pluginReplaceImportsESM valid cwd bundleConfig =
     (case r_external bundleConfig of
        None \<Rightarrow> Inr None
      | Some external \<Rightarrow>
          if external = [] then Inr None
          else (case import_rules valid cwd (o_file (r_output bundleConfig))
                       (js_str (o_format (r_output bundleConfig))) external of
                  Inl e \<Rightarrow> Inl e
                | Inr replacements \<Rightarrow>
                    Inr (Some (Replace replacements
                      (Some (case o_sourcemap (r_output bundleConfig) of
                               None \<Rightarrow> False | Some b \<Rightarrow> b))))))"

section \<open>Cleanup rules and the plugin chain\<close>

text \<open>
  The five cleanup rules, each a regular expression with the \<^verbatim>\<open>g\<close> flag and
  a callback that builds the replacement from the captured groups:
  \<^item> \<^verbatim>\<open>/const ([a-z])=/\<close> gives \<^verbatim>\<open>let ${x}=\<close>;
  \<^item> \<^verbatim>\<open>/let ([a-z]);let /\<close> gives \<^verbatim>\<open>let ${x},\<close>;
  \<^item> \<^verbatim>\<open>/for\(var [a-z]=arguments.length,([a-z])=new Array.+?arguments\[[a-z]\]/\<close>
    gives \<^verbatim>\<open>var ${x}=Array.from(arguments)\<close>;
  \<^item> \<^verbatim>\<open>/Object.defineProperty\(([a-z]),"([a-z]+)".+?return ([a-z.]+)}}\)/\<close>
    gives \<^verbatim>\<open>${on}.${key}=${value}\<close>;
  \<^item> \<^verbatim>\<open>/var [a-z]=Array.from\(arguments\);return ([a-z.]+.apply\(.+?)[a-z]\)/\<close>
    gives \<^verbatim>\<open>return ${partialApplyCall}arguments)\<close>.

  An unescaped dot in these expressions is the wildcard.  \<open>lit g s\<close> is the
  pattern of the literal text \<open>s\<close> inside group \<open>g\<close>.
\<close>

definition lit :: "nat \<Rightarrow> string \<Rightarrow> item list" where
  "lit g s = map (\<lambda>c. Item One (Lit c) g) s"

definition az :: cclass where
  "az = Cls [(CHR ''a'', CHR ''z'')]"

definition az_dot :: cclass where
  "az_dot = Cls [(CHR ''a'', CHR ''z''), (CHR ''.'', CHR ''.'')]"

definition constToLet :: replacement where
  "constToLet =
     \<lparr>search = Rx (lit 0 ''const '' @ [Item One az 1] @ lit 0 ''=''),
      eachMatch = [Txt ''let '', Grp 1, Txt ''='']\<rparr>"

definition letMerge :: replacement where
  "letMerge =
     \<lparr>search = Rx (lit 0 ''let '' @ [Item One az 1] @ lit 0 '';let ''),
      eachMatch = [Txt ''let '', Grp 1, Txt '','']\<rparr>"

definition argumentsLoop :: replacement where
  "argumentsLoop =
     \<lparr>search = Rx (lit 0 ''for(var '' @ [Item One az 0] @ lit 0 ''=arguments'' @
         [Item One Dot 0] @ lit 0 ''length,'' @ [Item One az 1] @ lit 0 ''=new Array'' @
         [Item PlusLazy Dot 0] @ lit 0 ''arguments['' @ [Item One az 0] @ lit 0 '']''),
      eachMatch = [Txt ''var '', Grp 1, Txt ''=Array.from(arguments)'']\<rparr>"

definition defineProperty :: replacement where
  \<open>defineProperty =
     \<lparr>search = Rx (lit 0 ''Object'' @ [Item One Dot 0] @ lit 0 ''defineProperty('' @
         [Item One az 1] @ lit 0 '',"'' @ [Item Plus az 2] @ lit 0 ''"'' @
         [Item PlusLazy Dot 0] @ lit 0 ''return '' @ [Item Plus az_dot 3] @ lit 0 ''}})''),
      eachMatch = [Grp 1, Txt ''.'', Grp 2, Txt ''='', Grp 3]\<rparr>\<close>

definition applyWrapper :: replacement where
  "applyWrapper =
     \<lparr>search = Rx (lit 0 ''var '' @ [Item One az 0] @ lit 0 ''=Array'' @
         [Item One Dot 0] @ lit 0 ''from(arguments);return '' @
         [Item Plus az_dot 1, Item One Dot 1] @ lit 1 ''apply('' @ [Item PlusLazy Dot 1] @
         [Item One az 0] @ lit 0 '')''),
      eachMatch = [Txt ''return '', Grp 1, Txt ''arguments)'']\<rparr>"

record bundle_config =
  b_input :: "string option"
  b_external :: "string list"
  b_plugins :: "plugin list"
  b_output :: output_options

definition output_plugins :: "string option \<Rightarrow> plugin option \<Rightarrow> plugin list \<Rightarrow> plugin list" where
  "output_plugins format imports plugins =
     [BundleSize format] @
     (if format \<in> {Some ESM, Some UMD, Some IIFE} then [Terser] else []) @
     (case imports of None \<Rightarrow> [] | Some p \<Rightarrow> [p]) @
     (if format = Some ESM then [Replace [constToLet] None] else []) @
     (if format = Some ESM then [Replace [letMerge] None] else []) @
     (if format \<in> {Some UMD, Some IIFE}
      then [Replace [argumentsLoop, defineProperty] None] else []) @
     (if format \<in> {Some UMD, Some IIFE} then [Replace [applyWrapper] None] else []) @
     plugins"

definition makeBundleConfigs :: "(string \<Rightarrow> bool) \<Rightarrow> string \<Rightarrow> rollup_options
    \<Rightarrow> error + bundle_config" where
  "makeBundleConfigs valid cwd rollupConfig =
     (let external = (case r_external rollupConfig of None \<Rightarrow> [] | Some e \<Rightarrow> e);
          output = r_output rollupConfig;
          format = o_format output;
          plugins = (case o_plugins output of None \<Rightarrow> [] | Some ps \<Rightarrow> ps);
          restOutput = output\<lparr>o_format := None, o_plugins := None\<rparr>
      in case (if format = Some ESM then pluginReplaceImportsESM valid cwd rollupConfig
               else Inr None) of
           Inl e \<Rightarrow> Inl e
         | Inr imports \<Rightarrow>
             Inr \<lparr>b_input = r_input rollupConfig,
                  b_external = external,
                  b_plugins = [NodeResolve] @
                    (if format \<in> {Some UMD, Some IIFE} then [Babel] else []),
                  b_output = spread
                    (no_output\<lparr>o_format := format, o_sourcemap := Some True,
                       o_plugins := Some (output_plugins format imports plugins),
                       o_strict := Some False, o_interop := Some False,
                       o_freeze := Some False, o_esModule := Some False\<rparr>)
                    restOutput\<rparr>)"

text \<open>\<^verbatim>\<open>bundles = bundleSnippets.map(makeBundleConfigs)\<close>: the first exception ends the run.\<close>

fun map_result :: "('a \<Rightarrow> error + 'b) \<Rightarrow> 'a list \<Rightarrow> error + 'b list" where
  "map_result f [] = Inr []"
| "map_result f (x # xs) =
     (case f x of
        Inl e \<Rightarrow> Inl e
      | Inr y \<Rightarrow> (case map_result f xs of Inl e \<Rightarrow> Inl e | Inr ys \<Rightarrow> Inr (y # ys)))"

definition bundles :: "(string \<Rightarrow> bool) \<Rightarrow> string \<Rightarrow> error + bundle_config list" where
  "bundles valid cwd = map_result (makeBundleConfigs valid cwd) bundleSnippets"

section \<open>Regular expressions and the rewrite engine\<close>

text \<open>
  A backtracking matcher for the patterns above, anchored at the start of the
  text.  It returns the piece of text each item consumed, for the first match
  in the order a backtracking engine tries them: a greedy \<^verbatim>\<open>+\<close> takes
  as many characters as it can before it gives one back, a lazy \<^verbatim>\<open>+?\<close>
  takes one and extends only when the rest of the pattern fails.  The dot
  matches every character but a line feed and a carriage return (the two other
  line terminators of JavaScript do not fit one byte of a \<open>string\<close>).
\<close>

fun in_class :: "cclass \<Rightarrow> char \<Rightarrow> bool" where
  "in_class (Lit c) x = (x = c)"
| "in_class Dot x = (x \<noteq> CHR 0x0A \<and> x \<noteq> CHR 0x0D)"
| "in_class (Cls ranges) x =
     list_ex (\<lambda>(lo, hi). (of_char lo :: nat) \<le> of_char x \<and> (of_char x :: nat) \<le> of_char hi)
       ranges"

fun matchp :: "item list \<Rightarrow> string \<Rightarrow> string list option" where
  "matchp [] s = Some []"
| "matchp (Item q c g # r) [] = None"
| "matchp (Item One c g # r) (x # xs) =
     (if in_class c x then map_option ((#) [x]) (matchp r xs) else None)"
| "matchp (Item Plus c g # r) (x # xs) =
     (if in_class c x
      then (case matchp (Item Plus c g # r) xs of
              Some (h # t) \<Rightarrow> Some ((x # h) # t)
            | _ \<Rightarrow> map_option ((#) [x]) (matchp r xs))
      else None)"
| "matchp (Item PlusLazy c g # r) (x # xs) =
     (if in_class c x
      then (case matchp r xs of
              Some t \<Rightarrow> Some ([x] # t)
            | None \<Rightarrow> (case matchp (Item PlusLazy c g # r) xs of
                         Some (h # t) \<Rightarrow> Some ((x # h) # t)
                       | _ \<Rightarrow> None))
      else None)"

fun group_of :: "item \<Rightarrow> nat" where
  "group_of (Item q c g) = g"

definition capture :: "item list \<Rightarrow> string list \<Rightarrow> nat \<Rightarrow> string" where
  "capture items chunks g =
     concat (map snd (filter (\<lambda>(it, chunk). group_of it = g) (zip items chunks)))"

definition instantiate :: "item list \<Rightarrow> string list \<Rightarrow> tpart list \<Rightarrow> string" where
  "instantiate items chunks template =
     concat (map (\<lambda>part. case part of Txt s \<Rightarrow> s | Grp g \<Rightarrow> capture items chunks g)
               template)"

lemma matchp_empty_text:
  assumes "matchp p [] = Some chunks"
  shows "concat chunks = []"
proof (cases p)
  case Nil
  with assms show ?thesis by simp
next
  case (Cons it r)
  with assms show ?thesis by (cases it) simp
qed

text \<open>
  Modelled from the spec: the replace plugin \<^verbatim>\<open>rollup-plugin-replace.js\<close>,
  which the configuration imports, is not among the sources.  The spec's text
  patch engine applies the rules strictly in list order; each rule scans the
  current text for all non-overlapping matches of its pattern, left to right,
  re-scanning from the end of the previous match, and replaces each match by
  the rewrite of its captured groups.  A zero-width match is a failure.  The
  position map of the spec is not modelled.
\<close>

function replace_all :: "item list \<Rightarrow> tpart list \<Rightarrow> string \<Rightarrow> error + string" where
  "replace_all p f s =
     (case matchp p s of
        Some chunks \<Rightarrow>
          (if concat chunks = [] then Inl RewriteFailureError
           else (case replace_all p f (drop (length (concat chunks)) s) of
                   Inl e \<Rightarrow> Inl e
                 | Inr rest \<Rightarrow> Inr (instantiate p chunks f @ rest)))
      | None \<Rightarrow>
          (case s of
             [] \<Rightarrow> Inr []
           | c # cs \<Rightarrow> (case replace_all p f cs of
                          Inl e \<Rightarrow> Inl e
                        | Inr rest \<Rightarrow> Inr (c # rest))))"
  by pat_completeness auto
termination
proof (relation "measure (\<lambda>(p, f, s). length s)")
  show "wf (measure (\<lambda>(p, f, s). length s))" by simp
next
  fix p :: "item list" and f :: "tpart list" and s chunks
  assume "matchp p s = Some chunks" "concat chunks \<noteq> []"
  then have "s \<noteq> []" using matchp_empty_text by blast
  with \<open>concat chunks \<noteq> []\<close>
  show "((p, f, drop (length (concat chunks)) s), (p, f, s)) \<in> measure (\<lambda>(p, f, s). length s)"
    by simp
next
  fix p :: "item list" and f :: "tpart list" and s c cs
  assume "s = c # cs"
  then show "((p, f, cs), (p, f, s)) \<in> measure (\<lambda>(p, f, s). length s)" by simp
qed

declare replace_all.simps [simp del]

text \<open>
  Modelled from the spec: the missing plugin's treatment of a rule list and of
  a chain of passes (rules in list order, each on the text the earlier ones
  left).  The JavaScript \<^verbatim>\<open>RegExp\<close> constructor, which compiles the
  search string of an import rule, is the parameter \<open>regexp\<close>.
\<close>

definition pattern_of :: "(string \<Rightarrow> item list) \<Rightarrow> search \<Rightarrow> item list" where
  "pattern_of regexp s = (case s of Rx items \<Rightarrow> items | RegExp_new source \<Rightarrow> regexp source)"

fun apply_rules :: "(string \<Rightarrow> item list) \<Rightarrow> replacement list \<Rightarrow> string \<Rightarrow> error + string" where
  "apply_rules regexp [] text = Inr text"
| "apply_rules regexp (r # rs) text =
     (case replace_all (pattern_of regexp (search r)) (eachMatch r) text of
        Inl e \<Rightarrow> Inl e
      | Inr text' \<Rightarrow> apply_rules regexp rs text')"

fun apply_battery :: "(string \<Rightarrow> item list) \<Rightarrow> replacement list list \<Rightarrow> string
    \<Rightarrow> error + string" where
  "apply_battery regexp [] text = Inr text"
| "apply_battery regexp (pass # passes) text =
     (case apply_rules regexp pass text of
        Inl e \<Rightarrow> Inl e
      | Inr text' \<Rightarrow> apply_battery regexp passes text')"

text \<open>The cleanup passes of the plugin chain, per format class.\<close>

definition esm_battery :: "replacement list list" where
  "esm_battery = [[constToLet], [letMerge]]"

definition umd_iife_battery :: "replacement list list" where
  "umd_iife_battery = [[argumentsLoop, defineProperty], [applyWrapper]]"

section \<open>Notions used in the statements\<close>

definition registered :: "string set" where
  "registered = {CJS, ESM, IIFE, UMD}"

text \<open>The snippet's own \<^verbatim>\<open>output\<close> leaves \<^verbatim>\<open>file\<close> and \<^verbatim>\<open>format\<close> to \<^verbatim>\<open>mk\<close>.\<close>

definition keeps_file :: "config_snippet \<Rightarrow> bool" where
  "keeps_file s =
     (case s_output s of None \<Rightarrow> True | Some out \<Rightarrow> o_file out = None \<and> o_format out = None)"

definition expands_ok :: "string \<Rightarrow> string list \<Rightarrow> rollup_options list \<Rightarrow> bool" where
  "expands_ok name formats configs \<longleftrightarrow>
     length configs = length formats \<and>
     distinct (map (o_file \<circ> r_output) configs) \<and>
     (\<forall>i < length formats.
        o_format (r_output (configs ! i)) = Some (formats ! i) \<and>
        o_file (r_output (configs ! i)) =
          Some (''packages/sinuous/dist/'' @ formats ! i @ ''/'' @ name @ ''.'' @
                (if formats ! i = IIFE then ''min.js'' else ''js'')))"

definition externals_of :: "config_snippet \<Rightarrow> string list" where
  "externals_of s = (case s_external s of None \<Rightarrow> [] | Some es \<Rightarrow> es)"

text \<open>A directory name: one path segment that is neither empty nor a dot segment.\<close>

definition plain_seg :: "string \<Rightarrow> bool" where
  "plain_seg s \<longleftrightarrow> s \<noteq> [] \<and> s \<noteq> ''.'' \<and> s \<noteq> ''..'' \<and> CHR ''/'' \<notin> set s"

definition cwd_segs :: "string \<Rightarrow> string list" where
  "cwd_segs cwd = normalize_segs [] (split_on CHR ''/'' cwd)"

text \<open>A descriptor snippet whose input path is the empty string.\<close>

definition blank_input :: config_snippet where
  "blank_input = \<lparr>s_input = Some [], s_external = None, s_output = None\<rparr>"

text \<open>The esm job of \<^verbatim>\<open>hydrate\<close>, had it listed an external that no descriptor declares.\<close>

definition hydrate_nope :: rollup_options where
  "hydrate_nope = mk_config ''hydrate''
     (snip ''/hydrate/src/index.js'' (Some [''sinuous/nope'']) (Some (named ''hydrate''))) ESM"

text \<open>
  The import plugin of a job can be built: the job has no externals to rewrite,
  or it has a file and \<^verbatim>\<open>new RegExp\<close> accepts the search of every external.
\<close>

definition imports_ok :: "(string \<Rightarrow> bool) \<Rightarrow> rollup_options \<Rightarrow> bool" where
  "imports_ok valid c =
     (case r_external c of
        None \<Rightarrow> True
      | Some es \<Rightarrow>
          es = [] \<or>
          (o_file (r_output c) \<noteq> None \<and>
           list_all (\<lambda>dep. regexp_ok valid (import_source dep)) es))"

text \<open>The end of an artifact's file name: the dot and the extension of the format.\<close>

definition suffix_of :: "string \<Rightarrow> string" where
  "suffix_of format = ''.'' @ js_str (map_of ext format)"

text \<open>
  What a relative import specifier written in a module stands for: the
  specifier resolved against the directory of the importing file.
\<close>

definition import_target :: "string \<Rightarrow> string \<Rightarrow> string \<Rightarrow> string list" where
  "import_target cwd importer specifier =
     normalize_segs (rev (butlast (resolve cwd importer))) (split_on CHR ''/'' specifier)"

text \<open>
  The esm jobs of the declared list that get an import rewrite plugin, each with
  its file, the \<^verbatim>\<open>sourcemap\<close> option of the plugin and the \<^verbatim>\<open>sourcemap\<close> of
  its bundle config.
\<close>

definition import_sourcemaps :: "(string \<Rightarrow> bool) \<Rightarrow> string
    \<Rightarrow> (string option \<times> bool option \<times> bool option) list" where
  "import_sourcemaps valid cwd =
     concat (map (\<lambda>c.
       case (pluginReplaceImportsESM valid cwd c, makeBundleConfigs valid cwd c) of
         (Inr (Some (Replace rules sm)), Inr b) \<Rightarrow>
           (if o_format (r_output c) = Some ESM
            then [(o_file (r_output c), sm, o_sourcemap (b_output b))] else [])
       | _ \<Rightarrow> []) bundleSnippets)"


section \<open>Notions used in the proofs about the cleanup rules\<close>

text \<open>
  A pattern whose items all match exactly one character matches a fixed number
  of characters; \<open>starts p s\<close> says that it matches at the start of \<open>s\<close>, and
  \<open>filled p f s\<close> is what the template \<open>f\<close> gives for that match.
\<close>

fun class_of :: "item \<Rightarrow> cclass" where
  "class_of (Item q c g) = c"

fun quant_of :: "item \<Rightarrow> quant" where
  "quant_of (Item q c g) = q"

fun starts :: "item list \<Rightarrow> string \<Rightarrow> bool" where
  "starts [] s = True"
| "starts (it # p) [] = False"
| "starts (it # p) (x # xs) = (in_class (class_of it) x \<and> starts p xs)"

definition fixed :: "item list \<Rightarrow> bool" where
  "fixed p = (p \<noteq> [] \<and> list_all (\<lambda>it. quant_of it = One) p)"

definition filled :: "item list \<Rightarrow> tpart list \<Rightarrow> string \<Rightarrow> string" where
  "filled p f s = instantiate p (map (\<lambda>c. [c]) (take (length p) s)) f"

definition gsub :: "item list \<Rightarrow> tpart list \<Rightarrow> string \<Rightarrow> string" where
  "gsub p f s = (case replace_all p f s of Inl e \<Rightarrow> [] | Inr t \<Rightarrow> t)"

text \<open>
  Two properties of a rule \<open>(p, f)\<close> against a pattern \<open>q\<close>: a match of \<open>q\<close>
  that begins before a replacement and reaches into it was there before the
  replacement (\<open>keeps\<close>), and no match of \<open>q\<close> begins inside a replacement
  (\<open>blocks\<close>).
\<close>

definition keeps :: "item list \<Rightarrow> item list \<Rightarrow> tpart list \<Rightarrow> bool" where
  "keeps q p f = (\<forall>s t i. 1 \<le> i \<longrightarrow> starts p s \<longrightarrow>
      starts (drop i q) (filled p f s @ t) \<longrightarrow> starts (drop i q) s)"

definition blocks :: "item list \<Rightarrow> item list \<Rightarrow> tpart list \<Rightarrow> bool" where
  "blocks q p f = (\<forall>s t j. starts p s \<longrightarrow> j < length (filled p f s) \<longrightarrow>
      \<not> starts q (drop j (filled p f s) @ t))"

definition unmatched :: "item list \<Rightarrow> string \<Rightarrow> bool" where
  "unmatched q s = (\<forall>i. \<not> starts q (drop i s))"

definition p_const :: "item list" where
  "p_const = lit 0 ''const '' @ [Item One az 1] @ lit 0 ''=''"

definition p_let :: "item list" where
  "p_let = lit 0 ''let '' @ [Item One az 1] @ lit 0 '';let ''"

definition f_const :: "tpart list" where "f_const = [Txt ''let '', Grp 1, Txt ''='']"
definition f_let :: "tpart list" where "f_let = [Txt ''let '', Grp 1, Txt '','']"

definition esm_clean :: "string \<Rightarrow> string" where
  "esm_clean text = gsub p_let f_let (gsub p_const f_const text)"

text \<open>A text on which the umd/iife cleanup is not idempotent.\<close>

definition umd_text :: string where
  \<open>umd_text = ''Object.defineProperty(a,"b",{get:function(){return for}})(var i=arguments.length,x=new Array(i);i--;)x[i]=arguments[i]''\<close>

section \<open>Properties of matrix expansion\<close>

lemma mk_loop_eq:
  "mk_loop name s formats (cs, ns) =
     (cs @ map (mk_config name s) formats, ns @ replicate (length formats) name)"
  by (induction formats arbitrary: cs ns) (simp_all add: replicate_app_Cons_same)

lemma mk_eq:
  "mk name formats s ns =
     (map (mk_config name s) formats, ns @ replicate (length formats) name)"
  by (simp add: mk_def mk_loop_eq)

lemma mk_all_eq:
  "mk_all ds ns =
     (concat (map (\<lambda>(name, formats, s). map (mk_config name s) formats) ds),
      ns @ concat (map (\<lambda>(name, formats, s). replicate (length formats) name) ds))"
  by (induction ds arbitrary: ns) (auto simp: mk_eq)

lemma ext_lookup:
  "map_of ext CJS = Some ''js''" "map_of ext ESM = Some ''js''"
  "map_of ext IIFE = Some ''min.js''" "map_of ext UMD = Some ''js''"
  by (simp_all add: ext_def format_defs)

lemma dest_registered:
  "f \<in> registered \<Longrightarrow>
     dest name f = ''packages/sinuous/dist/'' @ f @ ''/'' @ name @ ''.'' @
       (if f = IIFE then ''min.js'' else ''js'')"
  by (auto simp: registered_def dest_def src_def js_str_def ext_def format_defs)

lemma dest_inj_on: "inj_on (dest name) registered"
  by (rule inj_onI) (auto simp: registered_def dest_def src_def format_defs)

lemma mk_config_file:
  "keeps_file s \<Longrightarrow> o_file (r_output (mk_config name s f)) = Some (dest name f)"
  "keeps_file s \<Longrightarrow> o_format (r_output (mk_config name s f)) = Some f"
  by (auto simp: keeps_file_def mk_config_def spread_def later_def no_output_def
      split: option.splits)

lemma import_rules_eq:
  "import_rules valid cwd (Some fl) format es =
     (if list_all (\<lambda>dep. regexp_ok valid (import_source dep)) es
      then Inr (map (\<lambda>dep. import_rule dep (depPath cwd fl format dep)) es)
      else Inl SyntaxError)"
  by (induction es) auto

lemma import_rules_no_file:
  "es \<noteq> [] \<Longrightarrow> import_rules valid cwd None format es = Inl TypeError"
  by (cases es) auto

lemma pluginReplaceImportsESM_eq:
  assumes "r_external c = Some es" "es \<noteq> []"
  shows "pluginReplaceImportsESM valid cwd c =
     (case o_file (r_output c) of
        None \<Rightarrow> Inl TypeError
      | Some fl \<Rightarrow>
          if list_all (\<lambda>dep. regexp_ok valid (import_source dep)) es
          then Inr (Some (Replace
                 (map (\<lambda>dep. import_rule dep
                    (depPath cwd fl (js_str (o_format (r_output c))) dep)) es)
                 (Some (case o_sourcemap (r_output c) of None \<Rightarrow> False | Some b \<Rightarrow> b))))
          else Inl SyntaxError)"
  using assms
  by (simp add: pluginReplaceImportsESM_def import_rules_eq import_rules_no_file
      split: option.splits)

lemma pluginReplaceImportsESM_ok:
  "(\<exists>p. pluginReplaceImportsESM valid cwd c = Inr p) \<longleftrightarrow> imports_ok valid c"
proof (cases "r_external c")
  case None
  then show ?thesis by (simp add: pluginReplaceImportsESM_def imports_ok_def)
next
  case (Some es)
  show ?thesis
  proof (cases "es = []")
    case True
    with Some show ?thesis by (simp add: pluginReplaceImportsESM_def imports_ok_def)
  next
    case False
    with Some show ?thesis
      by (simp add: pluginReplaceImportsESM_eq imports_ok_def split: option.splits)
  qed
qed

lemma makeBundleConfigs_ok:
  "(\<exists>b. makeBundleConfigs valid cwd c = Inr b) \<longleftrightarrow>
     (o_format (r_output c) \<noteq> Some ESM \<or> imports_ok valid c)"
proof (cases "o_format (r_output c) = Some ESM")
  case True
  have "(\<exists>b. makeBundleConfigs valid cwd c = Inr b) \<longleftrightarrow>
      (\<exists>p. pluginReplaceImportsESM valid cwd c = Inr p)"
    using True by (auto simp: makeBundleConfigs_def Let_def split: sum.splits)
  with True show ?thesis by (simp add: pluginReplaceImportsESM_ok)
next
  case False
  then show ?thesis by (simp add: makeBundleConfigs_def Let_def)
qed

lemma makeBundleConfigs_copies:
  assumes "makeBundleConfigs valid cwd c = Inr b"
  shows "b_input b = r_input c"
    and "b_external b = (case r_external c of None \<Rightarrow> [] | Some es \<Rightarrow> es)"
  using assms by (auto simp: makeBundleConfigs_def Let_def split: sum.splits if_splits)

lemma makeBundleConfigs_input:
  "makeBundleConfigs valid cwd (c\<lparr>r_input := i\<rparr>) =
     map_sum id (\<lambda>b. b\<lparr>b_input := i\<rparr>) (makeBundleConfigs valid cwd c)"
proof -
  have "pluginReplaceImportsESM valid cwd (c\<lparr>r_input := i\<rparr>) = pluginReplaceImportsESM valid cwd c"
    by (simp add: pluginReplaceImportsESM_def split: option.split sum.split)
  then show ?thesis
    by (simp add: makeBundleConfigs_def Let_def split: sum.splits)
qed

text \<open>
  The general form of the expansion property: it holds for every name and every
  snippet that leaves \<^verbatim>\<open>file\<close> and \<^verbatim>\<open>format\<close> alone, when the formats are
  pairwise distinct members of the registry.
\<close>

lemma mk_expands_ok:
  assumes "keeps_file s" "distinct formats" "set formats \<subseteq> registered"
  shows "expands_ok name formats (fst (mk name formats s ns))"
  unfolding expands_ok_def
proof (intro conjI allI impI)
  show "length (fst (mk name formats s ns)) = length formats" by (simp add: mk_eq)
  have files: "map (o_file \<circ> r_output) (fst (mk name formats s ns)) =
      map (\<lambda>f. Some (dest name f)) formats"
    using assms(1) by (simp add: mk_eq mk_config_file)
  have "inj_on (\<lambda>f. Some (dest name f)) (set formats)"
    using dest_inj_on[of name] assms(3) by (auto simp: inj_on_def)
  then show "distinct (map (o_file \<circ> r_output) (fst (mk name formats s ns)))"
    unfolding files using assms(2) by (simp add: distinct_map)
next
  fix i assume i: "i < length formats"
  then have "formats ! i \<in> registered" using assms(3) by auto
  then show "o_file (r_output (fst (mk name formats s ns) ! i)) =
          Some (''packages/sinuous/dist/'' @ formats ! i @ ''/'' @ name @ ''.'' @
                (if formats ! i = IIFE then ''min.js'' else ''js''))"
    using i assms(1) by (simp add: mk_eq mk_config_file dest_registered)
  show "o_format (r_output (fst (mk name formats s ns) ! i)) = Some (formats ! i)"
    using i assms(1) by (simp add: mk_eq mk_config_file)
qed

lemma descriptors_wellformed:
  "\<forall>(name, formats, s) \<in> set descriptors.
     keeps_file s \<and> distinct formats \<and> set formats \<subseteq> registered"
  by (simp add: descriptors_def keeps_file_def snip_def named_def no_output_def
      registered_def format_defs)

text \<open>
  Claim C1.  Every descriptor declared in \<^verbatim>\<open>bundleSnippets\<close> with formats
  \<open>[f1..fn]\<close> expands, whatever \<^verbatim>\<open>bundleNames\<close> held before, into exactly
  \<open>n\<close> single-format configs; their output files are pairwise distinct, and
  the \<open>i\<close>-th is \<^verbatim>\<open>packages/sinuous/dist/<format>/<name>.<ext>\<close> for the
  \<open>i\<close>-th format, with \<^verbatim>\<open>min.js\<close> for iife and \<^verbatim>\<open>js\<close> for esm, umd and
  cjs.
\<close>

theorem mk_declared_expansion:
  "\<forall>(name, formats, s) \<in> set descriptors.
     \<forall>ns. expands_ok name formats (fst (mk name formats s ns))"
  using descriptors_wellformed mk_expands_ok by fast

theorem mk_declared_expansion_witness:
  "(''babel-plugin-htm'', [ESM, CJS], snip ''/babel-plugin-htm/src/index.js'' None None)
     \<in> set descriptors \<and>
   expands_ok ''babel-plugin-htm'' [ESM, CJS]
     (fst (mk ''babel-plugin-htm'' [ESM, CJS]
        (snip ''/babel-plugin-htm/src/index.js'' None None) []))"
proof -
  have m: "(''babel-plugin-htm'', [ESM, CJS], snip ''/babel-plugin-htm/src/index.js'' None None)
     \<in> set descriptors"
    by (simp add: descriptors_def)
  from mk_declared_expansion m show ?thesis by fast
qed

text \<open>Over the whole declared list: forty-two jobs, no two with the same output file.\<close>

lemma bundleSnippets_files_distinct:
  "length bundleSnippets = 42 \<and> distinct (map (o_file \<circ> r_output) bundleSnippets)"
  by code_simp

text \<open>
  Claim C7 as stated fails in its second half: \<^verbatim>\<open>mk\<close> checks nothing.  A
  descriptor whose input path is the empty string expands to one job per format
  like any other, and \<^verbatim>\<open>makeBundleConfigs\<close> turns the job into a bundle config
  whose input is the empty string.
\<close>

theorem mk_empty_input_accepted:
  "\<forall>valid.
     mk ''x'' [ESM] blank_input [] =
       ([\<lparr>r_input = Some [], r_external = None,
          r_output = no_output\<lparr>o_file := Some ''packages/sinuous/dist/esm/x.js'',
                                o_format := Some ''esm''\<rparr>\<rparr>], [''x'']) \<and>
     map_sum id b_input (makeBundleConfigs valid ''/repo'' (mk_config ''x'' blank_input ESM)) =
       Inr (Some [])"
proof
  fix valid
  have "mk ''x'' [ESM] blank_input [] =
       ([\<lparr>r_input = Some [], r_external = None,
          r_output = no_output\<lparr>o_file := Some ''packages/sinuous/dist/esm/x.js'',
                                o_format := Some ''esm''\<rparr>\<rparr>], [''x''])"
    by code_simp
  moreover have "map_sum id b_input
      (makeBundleConfigs valid ''/repo'' (mk_config ''x'' blank_input ESM)) = Inr (Some [])"
    by (simp add: makeBundleConfigs_def pluginReplaceImportsESM_def mk_config_def
        blank_input_def Let_def)
  ultimately show "mk ''x'' [ESM] blank_input [] =
       ([\<lparr>r_input = Some [], r_external = None,
          r_output = no_output\<lparr>o_file := Some ''packages/sinuous/dist/esm/x.js'',
                                o_format := Some ''esm''\<rparr>\<rparr>], [''x'']) \<and>
     map_sum id b_input (makeBundleConfigs valid ''/repo'' (mk_config ''x'' blank_input ESM)) =
       Inr (Some [])"
    by (rule conjI)
qed

text \<open>
  Claim C7, amended.  A descriptor with an empty formats list yields zero jobs
  and leaves \<^verbatim>\<open>bundleNames\<close> as it was.  For any formats list and any input,
  empty or missing included, expansion yields one job per format, each carrying
  the descriptor's input as it is.  Nothing validates the input path: neither
  \<^verbatim>\<open>mk\<close> nor \<^verbatim>\<open>makeBundleConfigs\<close> looks at it, so giving a descriptor or a
  job another input changes nothing in the outcome, an exception included, but
  the input that is copied along.
\<close>

theorem mk_no_validation:
  "mk name [] s ns = ([], ns) \<and>
   length (fst (mk name formats s ns)) = length formats \<and>
   map r_input (fst (mk name formats s ns)) = replicate (length formats) (s_input s) \<and>
   mk name formats (s\<lparr>s_input := i\<rparr>) ns =
     (map (\<lambda>c. c\<lparr>r_input := i\<rparr>) (fst (mk name formats s ns)), snd (mk name formats s ns)) \<and>
   makeBundleConfigs valid cwd (c\<lparr>r_input := i\<rparr>) =
     map_sum id (\<lambda>b. b\<lparr>b_input := i\<rparr>) (makeBundleConfigs valid cwd c)"
proof (intro conjI)
  show "mk name [] s ns = ([], ns)" by (simp add: mk_eq)
  show "length (fst (mk name formats s ns)) = length formats" by (simp add: mk_eq)
  show "map r_input (fst (mk name formats s ns)) = replicate (length formats) (s_input s)"
    by (simp add: mk_eq mk_config_def comp_def map_replicate_const)
  show "mk name formats (s\<lparr>s_input := i\<rparr>) ns =
     (map (\<lambda>c. c\<lparr>r_input := i\<rparr>) (fst (mk name formats s ns)), snd (mk name formats s ns))"
    by (simp add: mk_eq mk_config_def comp_def)
  show "makeBundleConfigs valid cwd (c\<lparr>r_input := i\<rparr>) =
     map_sum id (\<lambda>b. b\<lparr>b_input := i\<rparr>) (makeBundleConfigs valid cwd c)"
    by (rule makeBundleConfigs_input)
qed

text \<open>
  Claim C8 as stated fails: the name is pushed once per format, inside the loop,
  so \<^verbatim>\<open>htm\<close>, built in three formats, is recorded three times.
\<close>

theorem bundleNames_htm_thrice: "count_list bundleNames ''htm'' = 3"
  by (simp add: bundleNames_def mk_all_eq descriptors_def)

text \<open>
  Claim C8, amended.  \<^verbatim>\<open>mk\<close> appends the descriptor's name once per format;
  after expansion \<^verbatim>\<open>bundleNames\<close> lists, descriptor by descriptor, each name as
  many times as the descriptor has formats, so it is as long as the list of
  jobs; as a set it is the set of the declared descriptors' names.
\<close>

theorem bundleNames_per_job:
  "snd (mk name formats s ns) = ns @ replicate (length formats) name \<and>
   bundleNames =
     concat (map (\<lambda>(name, formats, s). replicate (length formats) name) descriptors) \<and>
   length bundleNames = length bundleSnippets \<and>
   set bundleNames = set (map fst descriptors)"
proof (intro conjI)
  show "snd (mk name formats s ns) = ns @ replicate (length formats) name"
    by (simp add: mk_eq)
  show "bundleNames =
      concat (map (\<lambda>(name, formats, s). replicate (length formats) name) descriptors)"
    by (simp add: bundleNames_def mk_all_eq)
  show "length bundleNames = length bundleSnippets"
    by (simp add: bundleNames_def bundleSnippets_def mk_all_eq length_concat comp_def
        case_prod_unfold)
  show "set bundleNames = set (map fst descriptors)"
    by (simp add: bundleNames_def mk_all_eq descriptors_def)
qed

section \<open>Properties of the bundle configs\<close>

text \<open>
  Claim C9.  Every job that \<^verbatim>\<open>mk\<close> produces carries the descriptor's
  \<^verbatim>\<open>external\<close> as it is.  Whenever \<^verbatim>\<open>makeBundleConfigs\<close> turns the job into a
  bundle config, the config's \<^verbatim>\<open>external\<close> is the same list of identifiers in
  the same order, the empty list when the descriptor has none.  It does so
  unless the job is an esm job whose import plugin cannot be built.
\<close>

theorem externals_carried_through:
  "\<forall>i < length formats.
     r_external (fst (mk name formats s ns) ! i) = s_external s \<and>
     (\<forall>b. makeBundleConfigs valid cwd (fst (mk name formats s ns) ! i) = Inr b \<longrightarrow>
          b_external b = externals_of s) \<and>
     ((\<exists>b. makeBundleConfigs valid cwd (fst (mk name formats s ns) ! i) = Inr b) \<longleftrightarrow>
        (o_format (r_output (fst (mk name formats s ns) ! i)) \<noteq> Some ESM \<or>
         imports_ok valid (fst (mk name formats s ns) ! i)))"
proof (intro allI impI conjI)
  fix i assume i: "i < length formats"
  let ?c = "fst (mk name formats s ns) ! i"
  have c: "?c = mk_config name s (formats ! i)" using i by (simp add: mk_eq)
  show e: "r_external ?c = s_external s" by (simp add: c mk_config_def)
  show "(\<exists>b. makeBundleConfigs valid cwd ?c = Inr b) \<longleftrightarrow>
        (o_format (r_output ?c) \<noteq> Some ESM \<or> imports_ok valid ?c)"
    by (rule makeBundleConfigs_ok)
  fix b assume "makeBundleConfigs valid cwd ?c = Inr b"
  from makeBundleConfigs_copies(2)[OF this] e
  show "b_external b = externals_of s" by (simp add: externals_of_def)
qed

theorem externals_carried_through_witness:
  "\<forall>valid.
     r_external (fst (mk ''render'' [ESM, UMD, IIFE]
        (snip ''/render/src/index.js''
           (Some [''sinuous'', ''sinuous/template'', ''sinuous/htm''])
           (Some (named ''render''))) []) ! 0)
       = Some [''sinuous'', ''sinuous/template'', ''sinuous/htm''] \<and>
     (\<exists>b. makeBundleConfigs valid ''/repo'' (fst (mk ''render'' [ESM, UMD, IIFE]
        (snip ''/render/src/index.js''
           (Some [''sinuous'', ''sinuous/template'', ''sinuous/htm''])
           (Some (named ''render''))) []) ! 0) = Inr b \<and>
        b_external b = [''sinuous'', ''sinuous/template'', ''sinuous/htm''])"
proof
  fix valid
  let ?s = "snip ''/render/src/index.js''
         (Some [''sinuous'', ''sinuous/template'', ''sinuous/htm''])
         (Some (named ''render''))"
  let ?c = "fst (mk ''render'' [ESM, UMD, IIFE] ?s []) ! 0"
  have ok: "imports_ok valid ?c"
    by (simp add: imports_ok_def mk_eq mk_config_def snip_def named_def no_output_def
        spread_def later_def regexp_ok_def plain_source_def special_def import_source_def)
  have x: "externals_of ?s = [''sinuous'', ''sinuous/template'', ''sinuous/htm'']"
    by (simp add: externals_of_def snip_def)
  have s: "s_external ?s = Some [''sinuous'', ''sinuous/template'', ''sinuous/htm'']"
    by (simp add: snip_def)
  have "r_external ?c = s_external ?s \<and>
      (\<forall>b. makeBundleConfigs valid ''/repo'' ?c = Inr b \<longrightarrow> b_external b = externals_of ?s) \<and>
      ((\<exists>b. makeBundleConfigs valid ''/repo'' ?c = Inr b) \<longleftrightarrow>
        (o_format (r_output ?c) \<noteq> Some ESM \<or> imports_ok valid ?c))"
    by (rule externals_carried_through[of "[ESM, UMD, IIFE]" "''render''" ?s "[]" valid
          "''/repo''", THEN spec, of 0, THEN mp]) simp
  with ok x s show "r_external ?c = Some [''sinuous'', ''sinuous/template'', ''sinuous/htm''] \<and>
     (\<exists>b. makeBundleConfigs valid ''/repo'' ?c = Inr b \<and>
        b_external b = [''sinuous'', ''sinuous/template'', ''sinuous/htm''])"
    by auto
qed

section \<open>Properties of import path resolution\<close>

lemma split_on_nonempty: "split_on c s \<noteq> []"
  by (induction s) (auto split: list.splits)

lemma split_on_append: "split_on c (a @ c # b) = split_on c a @ split_on c b"
  by (induction a) (auto split: list.splits simp: split_on_nonempty)

lemma split_on_none: "c \<notin> set s \<Longrightarrow> split_on c s = [s]"
  by (induction s) auto

lemma normalize_segs_append:
  "normalize_segs acc (xs @ ys) = normalize_segs (rev (normalize_segs acc xs)) ys"
  by (induction xs arbitrary: acc) auto

lemma normalize_segs_plain:
  "\<forall>s \<in> set ss. s \<noteq> [] \<and> s \<noteq> ''.'' \<and> s \<noteq> ''..'' \<Longrightarrow> normalize_segs acc ss = rev acc @ ss"
  by (induction ss arbitrary: acc) auto

lemma resolve_relative:
  assumes "take 1 p \<noteq> ''/''" "\<forall>s \<in> set (split_on CHR ''/'' p). s \<noteq> [] \<and> s \<noteq> ''.'' \<and> s \<noteq> ''..''"
  shows "resolve cwd p = cwd_segs cwd @ split_on CHR ''/'' p"
proof -
  have "resolve cwd p = normalize_segs [] (split_on CHR ''/'' (cwd @ CHR ''/'' # p))"
    using assms(1) by (simp add: resolve_def)
  also have "\<dots> = normalize_segs (rev (cwd_segs cwd)) (split_on CHR ''/'' p)"
    by (simp add: split_on_append normalize_segs_append cwd_segs_def)
  also have "\<dots> = cwd_segs cwd @ split_on CHR ''/'' p"
    using assms(2) by (simp add: normalize_segs_plain)
  finally show ?thesis .
qed

lemma common_append: "common (c @ xs) (c @ ys) = length c + common xs ys"
  by (induction c) auto

lemma dest_esm: "dest name ESM = ''packages/sinuous/dist/esm/'' @ name @ ''.js''"
  by (simp add: dest_def src_def ESM_def ext_def js_str_def format_defs)

lemma js_file_plain:
  "CHR ''/'' \<notin> set n \<Longrightarrow> split_on CHR ''/'' (n @ ''.js'') = [n @ ''.js'']"
  by (simp add: split_on_none)

lemma split_dest_esm:
  "split_on CHR ''/'' (dest name ESM) =
     [''packages'', ''sinuous'', ''dist'', ''esm''] @ split_on CHR ''/'' (name @ ''.js'')"
proof -
  have "dest name ESM = ''packages'' @ CHR ''/'' # (''sinuous'' @ CHR ''/'' # (''dist'' @ CHR ''/'' # (''esm'' @ CHR ''/'' # (name @ ''.js''))))"
    by (simp add: dest_esm)
  then show ?thesis
    by (simp only: split_on_append) (simp add: split_on_none)
qed



lemma relative_dest_esm:
  assumes fs: "split_on CHR ''/'' (name @ ''.js'') = f # fs"
    and plain: "\<forall>s \<in> set (f # fs). s \<noteq> [] \<and> s \<noteq> ''.'' \<and> s \<noteq> ''..''"
    and b: "CHR ''/'' \<notin> set b"
    and diff: "f \<noteq> b @ ''.js''"
  shows "relative cwd (dest name ESM) (dest b ESM) =
           join ''/'' (replicate (Suc (length fs)) ''..'' @ [b @ ''.js''])"
proof -
  define base where "base = [''packages'', ''sinuous'', ''dist'', ''esm'']"
  define C where "C = cwd_segs cwd @ base"
  have sf: "split_on CHR ''/'' (dest name ESM) = base @ f # fs"
    by (simp only: split_dest_esm fs base_def)
  have st: "split_on CHR ''/'' (dest b ESM) = base @ [b @ ''.js'']"
    using b by (simp only: split_dest_esm base_def) (simp add: split_on_none)
  have pf: "\<forall>s \<in> set (split_on CHR ''/'' (dest name ESM)). s \<noteq> [] \<and> s \<noteq> ''.'' \<and> s \<noteq> ''..''"
    unfolding sf using plain by (simp add: base_def)
  have pt: "\<forall>s \<in> set (split_on CHR ''/'' (dest b ESM)). s \<noteq> [] \<and> s \<noteq> ''.'' \<and> s \<noteq> ''..''"
    unfolding st by (simp add: base_def)
  have rel: "take 1 (dest n ESM) \<noteq> ''/''" for n by (simp add: dest_esm)
  have rf: "resolve cwd (dest name ESM) = C @ f # fs"
    using resolve_relative[OF rel pf] by (simp add: sf C_def)
  have rt: "resolve cwd (dest b ESM) = C @ [b @ ''.js'']"
    using resolve_relative[OF rel pt] by (simp add: st C_def)
  have ne: "dest name ESM \<noteq> dest b ESM"
    using sf st diff by auto
  have k: "common (C @ f # fs) (C @ [b @ ''.js'']) = length C"
    using diff by (simp add: common_append)
  have "relative cwd (dest name ESM) (dest b ESM) =
      join ''/'' (replicate (length (C @ f # fs) - length C) ''..'' @ drop (length C) (C @ [b @ ''.js'']))"
    unfolding relative_def rf rt Let_def k using ne diff by simp
  then show ?thesis by simp
qed

lemma replace_first_no_slash:
  "CHR ''/'' \<notin> set s \<Longrightarrow> replace_first ''./..'' ''..'' s = s"
proof (induction s)
  case Nil
  then show ?case by simp
next
  case (Cons x xs)
  have "\<not> prefix ''./..'' (x # xs)"
  proof
    assume "prefix ''./..'' (x # xs)"
    then have "set ''./..'' \<subseteq> set (x # xs)" by (rule set_mono_prefix)
    with Cons.prems show False by simp
  qed
  then have "replace_first ''./..'' ''..'' (x # xs) = x # replace_first ''./..'' ''..'' xs"
    by (simp only: replace_first.simps if_False)
  with Cons show ?case by simp
qed

lemma normalize_same_dir:
  assumes "CHR ''/'' \<notin> set x" "\<not> prefix ''..'' x"
  shows "replace_first ''./..'' ''..'' (replace_first ''..'' ''.'' (''../'' @ x)) = ''./'' @ x"
  using assms by (simp add: replace_first_no_slash)

lemma normalize_up:
  "replace_first ''./..'' ''..'' (replace_first ''..'' ''.'' (''../../'' @ x)) = ''../'' @ x"
  by simp

lemma basename_no_slash: "CHR ''/'' \<notin> set (basename p)"
  unfolding basename_def using set_takeWhileD by fastforce

lemma basename_plain:
  assumes "CHR ''/'' \<notin> set b"
  shows "basename b = b"
proof -
  from assms have 1: "dropWhile (\<lambda>c. c = CHR ''/'') (rev b) = rev b"
    by (cases "rev b") auto
  from assms have 2: "takeWhile (\<lambda>c. c \<noteq> CHR ''/'') (rev b) = rev b"
    by (auto intro: takeWhile_eq_all_conv[THEN iffD2])
  show ?thesis by (simp add: basename_def 1 2)
qed


text \<open>
  Away from these edges the path has the normal form.  For an esm job named
  \<open>name\<close> and an external \<open>dep\<close> with basename \<open>b\<close>, whose artifact is
  \<^verbatim>\<open>dist/esm/<b>.js\<close>: when the job lies in the same directory (its name has no
  slash), \<open>b\<close> is not the job's own name and \<^verbatim>\<open><b>.js\<close> does not begin with
  two dots, the path is \<^verbatim>\<open>./<b>.js\<close>; when the job lies one directory below
  (\<open>d/n\<close>), the path is \<^verbatim>\<open>../<b>.js\<close>; when it lies two directories below
  (\<open>d1/d2/n\<close>), the path is \<^verbatim>\<open>../../<b>.js\<close>.  The directory next to the
  artifact must not bear the artifact's name.  This holds for every working
  directory.
\<close>

lemma import_path_normalized:
  "(CHR ''/'' \<notin> set name \<and> basename dep \<noteq> name \<and> \<not> prefix ''..'' (basename dep @ ''.js'') \<longrightarrow>
      depPath cwd (dest name ESM) ESM dep = ''./'' @ basename dep @ ''.js'') \<and>
   (plain_seg d \<and> CHR ''/'' \<notin> set n \<and> d \<noteq> basename dep @ ''.js'' \<longrightarrow>
      depPath cwd (dest (d @ ''/'' @ n) ESM) ESM dep = ''../'' @ basename dep @ ''.js'') \<and>
   (plain_seg d1 \<and> plain_seg d2 \<and> CHR ''/'' \<notin> set n \<and> d1 \<noteq> basename dep @ ''.js'' \<longrightarrow>
      depPath cwd (dest (d1 @ ''/'' @ d2 @ ''/'' @ n) ESM) ESM dep =
        ''../../'' @ basename dep @ ''.js'')"
proof -
  define b where "b = basename dep"
  have bs: "CHR ''/'' \<notin> set b" "CHR ''/'' \<notin> set (b @ ''.js'')"
    using basename_no_slash b_def by auto
  have same: "depPath cwd (dest name ESM) ESM dep = ''./'' @ b @ ''.js''"
    if n: "CHR ''/'' \<notin> set name" and ne: "b \<noteq> name" and np: "\<not> prefix ''..'' (b @ ''.js'')"
  proof -
    have s: "split_on CHR ''/'' (name @ ''.js'') = (name @ ''.js'') # []"
      using n by (simp add: split_on_none)
    have "relative cwd (dest name ESM) (dest b ESM) = ''../'' @ (b @ ''.js'')"
      using relative_dest_esm[OF s _ bs(1), of cwd] ne by simp
    then show ?thesis
      unfolding depPath_def b_def[symmetric] using normalize_same_dir[OF bs(2) np] by simp
  qed
  have one: "depPath cwd (dest (d @ ''/'' @ n) ESM) ESM dep = ''../'' @ b @ ''.js''"
    if d: "plain_seg d" and n: "CHR ''/'' \<notin> set n" and ne: "d \<noteq> b @ ''.js''"
  proof -
    have s: "split_on CHR ''/'' ((d @ ''/'' @ n) @ ''.js'') = d # [n @ ''.js'']"
      using d n by (simp add: split_on_append split_on_none plain_seg_def)
    have "relative cwd (dest (d @ ''/'' @ n) ESM) (dest b ESM) = ''../../'' @ (b @ ''.js'')"
      using relative_dest_esm[OF s _ bs(1) ne, of cwd] d by (simp add: plain_seg_def)
    then show ?thesis
      unfolding depPath_def b_def[symmetric] using normalize_up[of "b @ ''.js''"] by simp
  qed
  have two: "depPath cwd (dest (d1 @ ''/'' @ d2 @ ''/'' @ n) ESM) ESM dep = ''../../'' @ b @ ''.js''"
    if d1: "plain_seg d1" and d2: "plain_seg d2" and n: "CHR ''/'' \<notin> set n"
      and ne: "d1 \<noteq> b @ ''.js''"
  proof -
    have s: "split_on CHR ''/'' ((d1 @ ''/'' @ d2 @ ''/'' @ n) @ ''.js'') = d1 # [d2, n @ ''.js'']"
      using d1 d2 n by (simp add: split_on_append split_on_none plain_seg_def)
    have "relative cwd (dest (d1 @ ''/'' @ d2 @ ''/'' @ n) ESM) (dest b ESM) =
        ''../../'' @ (''../'' @ b @ ''.js'')"
      using relative_dest_esm[OF s _ bs(1) ne, of cwd] d1 d2 by (simp add: plain_seg_def)
    then show ?thesis
      unfolding depPath_def b_def[symmetric] using normalize_up[of "''../'' @ b @ ''.js''"]
      by simp
  qed
  show ?thesis
    unfolding b_def[symmetric] using same one two by blast
qed

lemma import_path_normalized_examples:
  "depPath ''/repo'' (dest ''hydrate'' ESM) ESM ''sinuous/htm'' = ''./htm.js'' \<and>
   depPath ''/repo'' (dest ''map/mini'' ESM) ESM ''sinuous'' = ''../sinuous.js'' \<and>
   depPath ''/repo'' (dest ''a/b/c'' ESM) ESM ''sinuous'' = ''../../sinuous.js''"
proof -
  have b1: "basename ''sinuous/htm'' = ''htm''" and b2: "basename ''sinuous'' = ''sinuous''"
    by (simp_all add: basename_def)
  have 1: "depPath ''/repo'' (dest ''hydrate'' ESM) ESM ''sinuous/htm'' = ''./htm.js''"
    using import_path_normalized[of "''hydrate''" "''sinuous/htm''" "''/repo''"]
    by (simp add: b1)
  have 2: "depPath ''/repo'' (dest ''map/mini'' ESM) ESM ''sinuous'' = ''../sinuous.js''"
    using import_path_normalized[of _ "''sinuous''" "''/repo''" "''map''" "''mini''"]
    by (simp add: b2 plain_seg_def)
  have 3: "depPath ''/repo'' (dest ''a/b/c'' ESM) ESM ''sinuous'' = ''../../sinuous.js''"
    using import_path_normalized[of _ "''sinuous''" "''/repo''" _ "''c''" "''a''" "''b''"]
    by (simp add: b2 plain_seg_def)
  from 1 2 3 show ?thesis by simp
qed

lemma suffix_cases:
  "suffix_of f = ''.js'' \<or> suffix_of f = ''.min.js'' \<or> suffix_of f = ''.undefined''"
  by (simp add: suffix_of_def ext_def js_str_def)

lemma suffix_no_slash: "CHR ''/'' \<notin> set (suffix_of f)"
  using suffix_cases[of f] by auto

lemma file_name_plain:
  "n @ suffix_of f \<noteq> []" "n @ suffix_of f \<noteq> ''.''" "n @ suffix_of f \<noteq> ''..''"
proof -
  have "3 \<le> length (suffix_of f)" using suffix_cases[of f] by auto
  then have "3 \<le> length (n @ suffix_of f)" by simp
  moreover have "s \<noteq> [] \<and> s \<noteq> ''.'' \<and> s \<noteq> ''..''" if "3 \<le> length s" for s :: string
    using that by auto
  ultimately show "n @ suffix_of f \<noteq> []" "n @ suffix_of f \<noteq> ''.''"
    "n @ suffix_of f \<noteq> ''..''"
    by blast+
qed

lemma dest_parts:
  "dest name f = ''packages'' @ CHR ''/'' # (''sinuous'' @ CHR ''/'' #
     (''dist'' @ CHR ''/'' # (f @ CHR ''/'' # (name @ suffix_of f))))"
  by (simp add: dest_def src_def suffix_of_def)

lemma split_dest:
  assumes "CHR ''/'' \<notin> set f"
  shows "split_on CHR ''/'' (dest name f) =
     [''packages'', ''sinuous'', ''dist'', f] @ split_on CHR ''/'' (name @ suffix_of f)"
  using assms by (simp only: dest_parts split_on_append) (simp add: split_on_none)

lemma resolve_dest:
  assumes f: "plain_seg f"
    and segs: "split_on CHR ''/'' (name @ suffix_of f) = segs"
    and plain: "\<forall>s \<in> set segs. s \<noteq> [] \<and> s \<noteq> ''.'' \<and> s \<noteq> ''..''"
  shows "resolve cwd (dest name f) =
     cwd_segs cwd @ [''packages'', ''sinuous'', ''dist'', f] @ segs"
proof -
  have sl: "CHR ''/'' \<notin> set f" using f by (simp add: plain_seg_def)
  have s: "split_on CHR ''/'' (dest name f) = [''packages'', ''sinuous'', ''dist'', f] @ segs"
    by (simp only: split_dest[OF sl] segs)
  have p: "\<forall>s \<in> set (split_on CHR ''/'' (dest name f)). s \<noteq> [] \<and> s \<noteq> ''.'' \<and> s \<noteq> ''..''"
    unfolding s using plain f by (simp add: plain_seg_def)
  have r: "take 1 (dest name f) \<noteq> ''/''" by (simp add: dest_parts)
  show ?thesis using resolve_relative[OF r p] by (simp only: s)
qed

lemma relative_dest:
  assumes f: "plain_seg f"
    and fs: "split_on CHR ''/'' (name @ suffix_of f) = x # xs"
    and plain: "\<forall>s \<in> set (x # xs). s \<noteq> [] \<and> s \<noteq> ''.'' \<and> s \<noteq> ''..''"
    and b: "CHR ''/'' \<notin> set b"
    and diff: "x \<noteq> b @ suffix_of f"
  shows "relative cwd (dest name f) (dest b f) =
           join ''/'' (replicate (Suc (length xs)) ''..'' @ [b @ suffix_of f])"
proof -
  define C where "C = cwd_segs cwd @ [''packages'', ''sinuous'', ''dist'', f]"
  have bs: "split_on CHR ''/'' (b @ suffix_of f) = [b @ suffix_of f]"
    using b suffix_no_slash[of f] by (simp add: split_on_none)
  have bp: "\<forall>s \<in> set [b @ suffix_of f]. s \<noteq> [] \<and> s \<noteq> ''.'' \<and> s \<noteq> ''..''"
    using file_name_plain[of b f] by simp
  have rf: "resolve cwd (dest name f) = C @ x # xs"
    using resolve_dest[OF f fs plain, of cwd] by (simp add: C_def)
  have rt: "resolve cwd (dest b f) = C @ [b @ suffix_of f]"
    using resolve_dest[OF f bs bp, of cwd] by (simp add: C_def)
  have ne: "dest name f \<noteq> dest b f"
  proof
    assume "dest name f = dest b f"
    then have "C @ x # xs = C @ [b @ suffix_of f]" using rf rt by simp
    with diff show False by simp
  qed
  have k: "common (C @ x # xs) (C @ [b @ suffix_of f]) = length C"
    using diff by (simp add: common_append)
  have "relative cwd (dest name f) (dest b f) =
      join ''/'' (replicate (length (C @ x # xs) - length C) ''..'' @
        drop (length C) (C @ [b @ suffix_of f]))"
    unfolding relative_def rf rt Let_def k using ne diff by simp
  then show ?thesis by simp
qed

lemma join_snoc_append: "join sep (ds @ [n]) @ x = join sep (ds @ [n @ x])"
proof (induction ds)
  case Nil
  show ?case by simp
next
  case (Cons d ds)
  then show ?case by (cases ds) simp_all
qed

lemma split_join:
  assumes "\<forall>s \<in> set ss. CHR ''/'' \<notin> set s" "ss \<noteq> []"
  shows "split_on CHR ''/'' (join ''/'' ss) = ss"
  using assms
proof (induction ss)
  case Nil
  then show ?case by simp
next
  case (Cons s ss)
  show ?case
  proof (cases ss)
    case Nil
    with Cons.prems show ?thesis by (simp add: split_on_none)
  next
    case (Cons t ts)
    have "join ''/'' (s # t # ts) = s @ CHR ''/'' # join ''/'' (t # ts)" by simp
    then have "split_on CHR ''/'' (join ''/'' (s # t # ts)) =
        split_on CHR ''/'' s @ split_on CHR ''/'' (join ''/'' (t # ts))"
      by (simp only: split_on_append)
    with Cons Cons.IH Cons.prems show ?thesis by (simp add: split_on_none)
  qed
qed

lemma join_ups:
  "join ''/'' (replicate (Suc k) ''..'' @ [x]) = ''../'' @ join ''/'' (replicate k ''..'' @ [x])"
  by (cases k) simp_all

lemma normalize_ups:
  "normalize_segs acc (replicate k ''..'' @ rest) = normalize_segs (drop k acc) rest"
  by (induction k arbitrary: acc) (simp_all add: drop_Suc)

text \<open>
  The path from a job's file to the artifact named \<open>b\<close> of the same format, for a
  job any number of directories below the format's directory, and the file that
  the path stands for when it is read as an import of the job's file.
\<close>

lemma depPath_dest:
  assumes f: "plain_seg f"
    and dirs: "list_all plain_seg dirs"
    and n: "CHR ''/'' \<notin> set n"
    and diff: "hd (dirs @ [n @ suffix_of f]) \<noteq> basename dep @ suffix_of f"
    and dots: "dirs = [] \<longrightarrow> \<not> prefix ''..'' (basename dep @ suffix_of f)"
  shows "depPath cwd (dest (join ''/'' (dirs @ [n])) f) f dep =
           (if dirs = [] then ''./'' @ basename dep @ suffix_of f
            else join ''/'' (replicate (length dirs) ''..'' @ [basename dep @ suffix_of f]))"
    and "import_target cwd (dest (join ''/'' (dirs @ [n])) f)
           (depPath cwd (dest (join ''/'' (dirs @ [n])) f) f dep) =
         resolve cwd (dest (basename dep) f)"
proof -
  define b where "b = basename dep"
  define bx where "bx = b @ suffix_of f"
  define name where "name = join ''/'' (dirs @ [n])"
  define C where "C = cwd_segs cwd @ [''packages'', ''sinuous'', ''dist'', f]"
  have bs: "CHR ''/'' \<notin> set b" "CHR ''/'' \<notin> set bx"
    using basename_no_slash suffix_no_slash by (auto simp: b_def bx_def)
  have bp: "bx \<noteq> []" "bx \<noteq> ''.''" "bx \<noteq> ''..''"
    using file_name_plain[of b f] by (simp_all add: bx_def)
  have ds: "\<forall>s \<in> set (dirs @ [n @ suffix_of f]). CHR ''/'' \<notin> set s"
    using dirs n suffix_no_slash[of f] by (auto simp: list_all_iff plain_seg_def)
  have dp: "\<forall>s \<in> set (dirs @ [n @ suffix_of f]). s \<noteq> [] \<and> s \<noteq> ''.'' \<and> s \<noteq> ''..''"
    using dirs file_name_plain[of n f] by (auto simp: list_all_iff plain_seg_def)
  have sp: "split_on CHR ''/'' (name @ suffix_of f) = dirs @ [n @ suffix_of f]"
    unfolding name_def join_snoc_append using split_join[OF ds] by simp
  obtain x xs where xs: "dirs @ [n @ suffix_of f] = x # xs"
    by (cases "dirs @ [n @ suffix_of f]") simp_all
  then have len: "length xs = length dirs"
    by (metis length_append_singleton length_Cons nat.inject)
  have x: "x \<noteq> b @ suffix_of f" using diff xs by (simp add: b_def)
  have rel: "relative cwd (dest name f) (dest b f) =
      join ''/'' (replicate (Suc (length dirs)) ''..'' @ [bx])"
    using relative_dest[OF f sp[unfolded xs] dp[unfolded xs] bs(1) x, of cwd]
    by (simp add: len bx_def)
  have path: "depPath cwd (dest name f) f dep =
      (if dirs = [] then ''./'' @ bx else join ''/'' (replicate (length dirs) ''..'' @ [bx]))"
  proof (cases dirs)
    case Nil
    with dots have np: "\<not> prefix ''..'' bx" by (simp add: b_def bx_def)
    have "relative cwd (dest name f) (dest b f) = ''../'' @ bx" using rel Nil by simp
    then show ?thesis
      unfolding depPath_def b_def[symmetric] using normalize_same_dir[OF bs(2) np] Nil by simp
  next
    case (Cons d ds)
    have "relative cwd (dest name f) (dest b f) =
        ''../../'' @ join ''/'' (replicate (length ds) ''..'' @ [bx])"
      using rel Cons by (simp add: join_ups del: replicate_Suc join.simps)
    then show ?thesis
      unfolding depPath_def b_def[symmetric]
      using normalize_up[of "join ''/'' (replicate (length ds) ''..'' @ [bx])"] Cons
      by (simp add: join_ups del: replicate_Suc join.simps)
  qed
  show "depPath cwd (dest (join ''/'' (dirs @ [n])) f) f dep =
           (if dirs = [] then ''./'' @ basename dep @ suffix_of f
            else join ''/'' (replicate (length dirs) ''..'' @ [basename dep @ suffix_of f]))"
    using path by (simp add: name_def bx_def b_def)
  have rf: "resolve cwd (dest name f) = C @ dirs @ [n @ suffix_of f]"
    using resolve_dest[OF f sp dp, of cwd] by (simp add: C_def)
  have bsp: "split_on CHR ''/'' (b @ suffix_of f) = [bx]"
    using bs(2) by (simp add: split_on_none bx_def)
  have rt: "resolve cwd (dest b f) = C @ [bx]"
    using resolve_dest[OF f bsp, of cwd] bp by (simp add: C_def)
  have bl: "butlast (resolve cwd (dest name f)) = C @ dirs"
    unfolding rf by (simp add: butlast_append)
  have "import_target cwd (dest name f) (depPath cwd (dest name f) f dep) = C @ [bx]"
  proof (cases "dirs = []")
    case True
    have "split_on CHR ''/'' (''./'' @ bx) = [''.'', bx]"
      using split_on_append[of "CHR ''/''" "''.''" bx] bs(2) by (simp add: split_on_none)
    then show ?thesis
      unfolding import_target_def bl path using True bp by simp
  next
    case False
    have "\<forall>s \<in> set (replicate (length dirs) ''..'' @ [bx]). CHR ''/'' \<notin> set s"
      using bs(2) by auto
    then have "split_on CHR ''/'' (join ''/'' (replicate (length dirs) ''..'' @ [bx])) =
        replicate (length dirs) ''..'' @ [bx]"
      by (rule split_join) simp
    then show ?thesis
      unfolding import_target_def bl path using False bp by (simp add: normalize_ups)
  qed
  then show "import_target cwd (dest (join ''/'' (dirs @ [n])) f)
           (depPath cwd (dest (join ''/'' (dirs @ [n])) f) f dep) =
         resolve cwd (dest (basename dep) f)"
    using rt by (simp add: name_def b_def)
qed

lemma registered_plain: "f \<in> registered \<Longrightarrow> plain_seg f"
  by (auto simp: registered_def plain_seg_def format_defs)

text \<open>
  Claim C10.  The import path of an external depends on the identifier through
  its basename only: the identifier and its basename give the same path, and so
  do any two identifiers with equal basenames, for every file, format and
  working directory.  The path targets the artifact of that name in the same
  format's directory: for a registered format and a job \<open>dirs/n\<close> any number
  of directories below the format's directory, the path is \<^verbatim>\<open>./<b><ext></b>\<close>
  from the directory itself and one \<^verbatim>\<open>..\<close> per directory followed by
  \<^verbatim>\<open><b><ext>\<close> from below; read as an import of the job's file it stands for
  \<^verbatim>\<open>dest(b, format)\<close>, which is
  \<^verbatim>\<open>packages/sinuous/dist/<format>/<b><ext>\<close>.  Here the first segment of the
  job's path below the format's directory must differ from the artifact's file
  name, and in the directory itself the file name must not begin with two dots.
\<close>

theorem import_path_basename_only:
  "depPath cwd fl format dep = depPath cwd fl format (basename dep) \<and>
   (basename dep1 = basename dep2 \<longrightarrow>
      depPath cwd fl format dep1 = depPath cwd fl format dep2) \<and>
   (format \<in> registered \<and> list_all plain_seg dirs \<and> CHR ''/'' \<notin> set n \<and>
    hd (dirs @ [n @ suffix_of format]) \<noteq> basename dep @ suffix_of format \<and>
    (dirs = [] \<longrightarrow> \<not> prefix ''..'' (basename dep @ suffix_of format)) \<longrightarrow>
      depPath cwd (dest (join ''/'' (dirs @ [n])) format) format dep =
        (if dirs = [] then ''./'' @ basename dep @ suffix_of format
         else join ''/'' (replicate (length dirs) ''..'' @ [basename dep @ suffix_of format])) \<and>
      import_target cwd (dest (join ''/'' (dirs @ [n])) format)
          (depPath cwd (dest (join ''/'' (dirs @ [n])) format) format dep) =
        resolve cwd (dest (basename dep) format) \<and>
      resolve cwd (dest (basename dep) format) =
        cwd_segs cwd @ [''packages'', ''sinuous'', ''dist'', format,
                        basename dep @ suffix_of format])"
proof (intro conjI impI)
  show "depPath cwd fl format dep = depPath cwd fl format (basename dep)"
    by (simp add: depPath_def basename_plain basename_no_slash)
  show "depPath cwd fl format dep1 = depPath cwd fl format dep2"
    if "basename dep1 = basename dep2"
    using that by (simp add: depPath_def)
next
  assume h: "format \<in> registered \<and> list_all plain_seg dirs \<and> CHR ''/'' \<notin> set n \<and>
    hd (dirs @ [n @ suffix_of format]) \<noteq> basename dep @ suffix_of format \<and>
    (dirs = [] \<longrightarrow> \<not> prefix ''..'' (basename dep @ suffix_of format))"
  then have f: "plain_seg format" by (simp add: registered_plain)
  from h have d: "list_all plain_seg dirs" and n: "CHR ''/'' \<notin> set n"
    and x: "hd (dirs @ [n @ suffix_of format]) \<noteq> basename dep @ suffix_of format"
    and p: "dirs = [] \<longrightarrow> \<not> prefix ''..'' (basename dep @ suffix_of format)"
    by simp_all
  show "depPath cwd (dest (join ''/'' (dirs @ [n])) format) format dep =
        (if dirs = [] then ''./'' @ basename dep @ suffix_of format
         else join ''/'' (replicate (length dirs) ''..'' @ [basename dep @ suffix_of format]))"
    by (rule depPath_dest(1)[OF f d n x p])
  show "import_target cwd (dest (join ''/'' (dirs @ [n])) format)
          (depPath cwd (dest (join ''/'' (dirs @ [n])) format) format dep) =
        resolve cwd (dest (basename dep) format)"
    by (rule depPath_dest(2)[OF f d n x p])
  have s: "split_on CHR ''/'' (basename dep @ suffix_of format) =
      [basename dep @ suffix_of format]"
    using basename_no_slash[of dep] suffix_no_slash[of format] by (simp add: split_on_none)
  show "resolve cwd (dest (basename dep) format) =
        cwd_segs cwd @ [''packages'', ''sinuous'', ''dist'', format,
                        basename dep @ suffix_of format]"
    using resolve_dest[OF f s, of cwd] file_name_plain[of "basename dep" format] by simp
qed

theorem import_path_basename_only_witness:
  "basename ''sinuous/htm'' = basename ''htm'' \<and>
   depPath ''/repo'' (dest ''hydrate'' ESM) ESM ''sinuous/htm'' =
     depPath ''/repo'' (dest ''hydrate'' ESM) ESM ''htm'' \<and>
   depPath ''/repo'' (dest ''hydrate'' ESM) ESM ''sinuous/htm'' = ''./htm.js'' \<and>
   import_target ''/repo'' (dest ''hydrate'' ESM) ''./htm.js'' =
     [''repo'', ''packages'', ''sinuous'', ''dist'', ''esm'', ''htm.js''] \<and>
   depPath ''/repo'' (dest ''map/mini'' IIFE) IIFE ''sinuous/observable'' =
     ''../observable.min.js'' \<and>
   import_target ''/repo'' (dest ''map/mini'' IIFE) ''../observable.min.js'' =
     [''repo'', ''packages'', ''sinuous'', ''dist'', ''iife'', ''observable.min.js'']"
proof -
  have b: "basename ''sinuous/htm'' = ''htm''" "basename ''htm'' = ''htm''"
    "basename ''sinuous/observable'' = ''observable''"
    by (simp_all add: basename_def)
  have s: "suffix_of ESM = ''.js''" "suffix_of IIFE = ''.min.js''"
    by (simp_all add: suffix_of_def ext_lookup js_str_def)
  have c: "cwd_segs ''/repo'' = [''repo'']" by (simp add: cwd_segs_def)
  have r: "ESM \<in> registered" "IIFE \<in> registered" by (simp_all add: registered_def)
  have h1: "ESM \<in> registered \<and> list_all plain_seg [] \<and> CHR ''/'' \<notin> set ''hydrate'' \<and>
      hd ([] @ [''hydrate'' @ suffix_of ESM]) \<noteq> basename ''sinuous/htm'' @ suffix_of ESM \<and>
      (([]::string list) = [] \<longrightarrow> \<not> prefix ''..'' (basename ''sinuous/htm'' @ suffix_of ESM))"
    by (simp add: b s r)
  have h2: "IIFE \<in> registered \<and> list_all plain_seg [''map''] \<and> CHR ''/'' \<notin> set ''mini'' \<and>
      hd ([''map''] @ [''mini'' @ suffix_of IIFE]) \<noteq>
        basename ''sinuous/observable'' @ suffix_of IIFE \<and>
      ([''map''] = [] \<longrightarrow> \<not> prefix ''..'' (basename ''sinuous/observable'' @ suffix_of IIFE))"
    by (simp add: b s r plain_seg_def)
  note t1 = import_path_basename_only[of "''/repo''" "dest ''hydrate'' ESM" ESM "''sinuous/htm''"
        "''sinuous/htm''" "''htm''" "[]" "''hydrate''"]
  note t2 = import_path_basename_only[of "''/repo''" "dest ''map/mini'' IIFE" IIFE
        "''sinuous/observable''" "''sinuous/observable''" "''sinuous/observable''"
        "[''map'']" "''mini''"]
  note k1 = t1[THEN conjunct2, THEN conjunct2, THEN mp, OF h1]
  note k2 = t2[THEN conjunct2, THEN conjunct2, THEN mp, OF h2]
  have 1: "depPath ''/repo'' (dest ''hydrate'' ESM) ESM ''sinuous/htm'' =
      depPath ''/repo'' (dest ''hydrate'' ESM) ESM ''htm''"
    using t1[THEN conjunct1] by (simp only: b)
  have 2: "depPath ''/repo'' (dest ''hydrate'' ESM) ESM ''sinuous/htm'' = ''./htm.js''"
    using k1[THEN conjunct1] by (simp add: b s)
  have "import_target ''/repo'' (dest ''hydrate'' ESM)
      (depPath ''/repo'' (dest ''hydrate'' ESM) ESM ''sinuous/htm'') =
     [''repo'', ''packages'', ''sinuous'', ''dist'', ESM, ''htm.js'']"
    using k1[THEN conjunct2] by (simp add: b s c)
  then have 3: "import_target ''/repo'' (dest ''hydrate'' ESM) ''./htm.js'' =
     [''repo'', ''packages'', ''sinuous'', ''dist'', ''esm'', ''htm.js'']"
    unfolding 2 by (simp add: ESM_def)
  have 4: "depPath ''/repo'' (dest ''map/mini'' IIFE) IIFE ''sinuous/observable'' =
      ''../observable.min.js''"
    using k2[THEN conjunct1] by (simp add: b s)
  have "import_target ''/repo'' (dest ''map/mini'' IIFE)
      (depPath ''/repo'' (dest ''map/mini'' IIFE) IIFE ''sinuous/observable'') =
     [''repo'', ''packages'', ''sinuous'', ''dist'', IIFE, ''observable.min.js'']"
    using k2[THEN conjunct2] by (simp add: b s c)
  then have 5: "import_target ''/repo'' (dest ''map/mini'' IIFE) ''../observable.min.js'' =
     [''repo'', ''packages'', ''sinuous'', ''dist'', ''iife'', ''observable.min.js'']"
    unfolding 4 by (simp add: IIFE_def)
  show ?thesis
    by (intro conjI) (simp add: b, rule 1, rule 2, rule 3, rule 4, rule 5)
qed

lemma regexp_ok_plain: "plain_source source \<Longrightarrow> regexp_ok valid source"
  by (simp add: regexp_ok_def)

text \<open>
  Claim C4 as stated fails: nothing looks the dependency up.  No descriptor is
  named \<^verbatim>\<open>nope\<close> and no job writes \<^verbatim>\<open>dist/esm/nope.js\<close>, yet an esm job
  with the external \<^verbatim>\<open>sinuous/nope\<close> gets its import rule, pointing at that
  file, and its bundle config; no error is raised.
\<close>

theorem unknown_dependency_resolved:
  "\<forall>valid.
     ''nope'' \<notin> set (map fst descriptors) \<and>
     Some (dest ''nope'' ESM) \<notin> set (map (o_file \<circ> r_output) bundleSnippets) \<and>
     pluginReplaceImportsESM valid ''/repo'' hydrate_nope =
       Inr (Some (Replace [import_rule ''sinuous/nope'' ''./nope.js''] (Some False))) \<and>
     \<not> isl (makeBundleConfigs valid ''/repo'' hydrate_nope)"
proof
  fix valid
  have 1: "''nope'' \<notin> set (map fst descriptors)" by code_simp
  have 2: "Some (dest ''nope'' ESM) \<notin> set (map (o_file \<circ> r_output) bundleSnippets)"
    by code_simp
  have e: "r_external hydrate_nope = Some [''sinuous/nope'']"
    and f: "o_file (r_output hydrate_nope) = Some (dest ''hydrate'' ESM)"
    and m: "o_format (r_output hydrate_nope) = Some ESM"
    and sm: "o_sourcemap (r_output hydrate_nope) = None"
    by (simp_all add: hydrate_nope_def mk_config_def snip_def named_def spread_def later_def
        no_output_def)
  have p: "plain_source (import_source ''sinuous/nope'')" by code_simp
  have d: "depPath ''/repo'' (dest ''hydrate'' ESM) ''esm'' ''sinuous/nope'' = ''./nope.js''"
    by code_simp
  have 3: "pluginReplaceImportsESM valid ''/repo'' hydrate_nope =
       Inr (Some (Replace [import_rule ''sinuous/nope'' ''./nope.js''] (Some False)))"
    using d by (simp add: pluginReplaceImportsESM_def e f m sm regexp_ok_plain[OF p]
        js_str_def ESM_def)
  then have 4: "\<not> isl (makeBundleConfigs valid ''/repo'' hydrate_nope)"
    by (simp add: makeBundleConfigs_def Let_def m)
  from 1 2 3 4 show "''nope'' \<notin> set (map fst descriptors) \<and>
     Some (dest ''nope'' ESM) \<notin> set (map (o_file \<circ> r_output) bundleSnippets) \<and>
     pluginReplaceImportsESM valid ''/repo'' hydrate_nope =
       Inr (Some (Replace [import_rule ''sinuous/nope'' ''./nope.js''] (Some False))) \<and>
     \<not> isl (makeBundleConfigs valid ''/repo'' hydrate_nope)"
    by simp
qed

text \<open>
  Claim C4, amended.  Resolution consults no table of descriptors and raises no
  error for an identifier that none of them builds.  For a job whose externals
  are a non-empty list the import plugin is decided by the job alone: without an
  output file the first \<^verbatim>\<open>path.relative\<close> raises a \<^verbatim>\<open>TypeError\<close>; with one, an
  identifier that makes \<^verbatim>\<open>from"<identifier>"\<close> no regular expression raises a
  \<^verbatim>\<open>SyntaxError\<close>; otherwise the plugin holds one rule per identifier, in order,
  each with the path computed from the identifier's basename and the job's own
  file and format.
\<close>

theorem import_resolution_no_lookup:
  assumes "r_external c = Some es" and "es \<noteq> []"
  shows "pluginReplaceImportsESM valid cwd c =
     (case o_file (r_output c) of
        None \<Rightarrow> Inl TypeError
      | Some fl \<Rightarrow>
          if list_all (\<lambda>dep. regexp_ok valid (import_source dep)) es
          then Inr (Some (Replace
                 (map (\<lambda>dep. import_rule dep
                    (depPath cwd fl (js_str (o_format (r_output c))) dep)) es)
                 (Some (case o_sourcemap (r_output c) of None \<Rightarrow> False | Some b \<Rightarrow> b))))
          else Inl SyntaxError)"
  using assms by (rule pluginReplaceImportsESM_eq)

theorem import_resolution_no_lookup_witness:
  "\<forall>valid.
     r_external hydrate_nope = Some [''sinuous/nope''] \<and>
     pluginReplaceImportsESM valid ''/repo'' hydrate_nope =
       Inr (Some (Replace
         [import_rule ''sinuous/nope'' ''./nope.js'']
         (Some False))) \<and>
     pluginReplaceImportsESM valid ''/repo''
         (hydrate_nope\<lparr>r_output := (r_output hydrate_nope)\<lparr>o_file := None\<rparr>\<rparr>) =
       Inl TypeError \<and>
     pluginReplaceImportsESM (\<lambda>source. False) ''/repo''
         (hydrate_nope\<lparr>r_external := Some [''c++'']\<rparr>) =
       Inl SyntaxError"
proof
  fix valid
  have e: "r_external hydrate_nope = Some [''sinuous/nope'']"
    and f: "o_file (r_output hydrate_nope) = Some ''packages/sinuous/dist/esm/hydrate.js''"
    and m: "o_format (r_output hydrate_nope) = Some ''esm''"
    and sm: "o_sourcemap (r_output hydrate_nope) = None"
    by (simp_all add: hydrate_nope_def mk_config_def snip_def named_def spread_def later_def
        no_output_def dest_def src_def ext_def js_str_def format_defs)
  have p: "plain_source (import_source ''sinuous/nope'')" by code_simp
  have d: "depPath ''/repo'' ''packages/sinuous/dist/esm/hydrate.js'' ''esm'' ''sinuous/nope'' =
      ''./nope.js''"
    by code_simp
  have q: "\<not> regexp_ok (\<lambda>source. False) (import_source ''c++'')" by code_simp
  have 1: "pluginReplaceImportsESM valid ''/repo'' hydrate_nope =
       Inr (Some (Replace
         [import_rule ''sinuous/nope'' ''./nope.js'']
         (Some False)))"
    using import_resolution_no_lookup[of hydrate_nope "[''sinuous/nope'']" valid "''/repo''"]
    by (simp add: e f m sm regexp_ok_plain[OF p] js_str_def d)
  have 2: "pluginReplaceImportsESM valid ''/repo''
         (hydrate_nope\<lparr>r_output := (r_output hydrate_nope)\<lparr>o_file := None\<rparr>\<rparr>) =
       Inl TypeError"
    using import_resolution_no_lookup[of
        "hydrate_nope\<lparr>r_output := (r_output hydrate_nope)\<lparr>o_file := None\<rparr>\<rparr>"
        "[''sinuous/nope'']" valid "''/repo''"]
    by (simp add: e)
  have 3: "pluginReplaceImportsESM (\<lambda>source. False) ''/repo''
         (hydrate_nope\<lparr>r_external := Some [''c++'']\<rparr>) =
       Inl SyntaxError"
    using import_resolution_no_lookup[of "hydrate_nope\<lparr>r_external := Some [''c++'']\<rparr>"
        "[''c++'']" "\<lambda>source. False" "''/repo''"] q
    by (simp add: f)
  from e 1 2 3 show "r_external hydrate_nope = Some [''sinuous/nope''] \<and>
     pluginReplaceImportsESM valid ''/repo'' hydrate_nope =
       Inr (Some (Replace
         [import_rule ''sinuous/nope'' ''./nope.js'']
         (Some False))) \<and>
     pluginReplaceImportsESM valid ''/repo''
         (hydrate_nope\<lparr>r_output := (r_output hydrate_nope)\<lparr>o_file := None\<rparr>\<rparr>) =
       Inl TypeError \<and>
     pluginReplaceImportsESM (\<lambda>source. False) ''/repo''
         (hydrate_nope\<lparr>r_external := Some [''c++'']\<rparr>) =
       Inl SyntaxError"
    by simp
qed

section \<open>Properties of the plugin chain\<close>

lemma esm_output_plugins:
  assumes "o_format (r_output c) = Some ESM"
    and "pluginReplaceImportsESM valid cwd c = Inr imports"
  shows "\<exists>b. makeBundleConfigs valid cwd c = Inr b \<and>
     o_plugins (b_output b) =
       Some ([BundleSize (Some ESM), Terser] @
             (case imports of None \<Rightarrow> [] | Some p \<Rightarrow> [p]) @
             [Replace [constToLet] None, Replace [letMerge] None] @
             (case o_plugins (r_output c) of None \<Rightarrow> [] | Some ps \<Rightarrow> ps))"
  using assms
  by (simp add: makeBundleConfigs_def Let_def output_plugins_def spread_def later_def
      no_output_def format_defs)

text \<open>
  Claim C5.  For every esm job with a non-empty externals list, whenever the job
  becomes a bundle config, the output plugins of the config are, in this order:
  the size report, the minifier, the import rewrite pass, the const-to-let pass,
  the let-merging pass, and then the job's own output plugins.  So the import
  pass is applied before both cleanup passes.  The job becomes a bundle config
  exactly when it has an output file and \<^verbatim>\<open>new RegExp\<close> accepts the search of
  every external; otherwise building the import pass raises an exception.
\<close>

theorem import_pass_before_cleanup:
  assumes "o_format (r_output c) = Some ESM"
    and "r_external c = Some es" and "es \<noteq> []"
  shows "(\<forall>b. makeBundleConfigs valid cwd c = Inr b \<longrightarrow>
            (\<exists>imports. pluginReplaceImportsESM valid cwd c = Inr (Some imports) \<and>
               o_plugins (b_output b) =
                 Some ([BundleSize (Some ESM), Terser, imports,
                        Replace [constToLet] None, Replace [letMerge] None] @
                       (case o_plugins (r_output c) of None \<Rightarrow> [] | Some ps \<Rightarrow> ps)))) \<and>
         ((\<exists>b. makeBundleConfigs valid cwd c = Inr b) \<longleftrightarrow>
            o_file (r_output c) \<noteq> None \<and>
            list_all (\<lambda>dep. regexp_ok valid (import_source dep)) es)"
proof
  show "\<forall>b. makeBundleConfigs valid cwd c = Inr b \<longrightarrow>
            (\<exists>imports. pluginReplaceImportsESM valid cwd c = Inr (Some imports) \<and>
               o_plugins (b_output b) =
                 Some ([BundleSize (Some ESM), Terser, imports,
                        Replace [constToLet] None, Replace [letMerge] None] @
                       (case o_plugins (r_output c) of None \<Rightarrow> [] | Some ps \<Rightarrow> ps)))"
  proof (intro allI impI)
    fix b assume b: "makeBundleConfigs valid cwd c = Inr b"
    then obtain p where p: "pluginReplaceImportsESM valid cwd c = Inr p"
      using assms(1) by (auto simp: makeBundleConfigs_def Let_def split: sum.splits)
    then obtain q where i: "p = Some q"
      using pluginReplaceImportsESM_eq[OF assms(2,3), of valid cwd]
      by (auto split: option.splits if_splits)
    from esm_output_plugins[OF assms(1) p] b i
    show "\<exists>imports. pluginReplaceImportsESM valid cwd c = Inr (Some imports) \<and>
               o_plugins (b_output b) =
                 Some ([BundleSize (Some ESM), Terser, imports,
                        Replace [constToLet] None, Replace [letMerge] None] @
                       (case o_plugins (r_output c) of None \<Rightarrow> [] | Some ps \<Rightarrow> ps))"
      using p by auto
  qed
  show "(\<exists>b. makeBundleConfigs valid cwd c = Inr b) \<longleftrightarrow>
            o_file (r_output c) \<noteq> None \<and>
            list_all (\<lambda>dep. regexp_ok valid (import_source dep)) es"
    using assms by (simp add: makeBundleConfigs_ok imports_ok_def)
qed

theorem import_pass_before_cleanup_witness:
  "\<forall>valid.
     o_format (r_output (bundleSnippets ! 3)) = Some ESM \<and>
     r_external (bundleSnippets ! 3) = Some [''sinuous'', ''sinuous/htm''] \<and>
     (\<exists>b imports.
        makeBundleConfigs valid ''/repo'' (bundleSnippets ! 3) = Inr b \<and>
        pluginReplaceImportsESM valid ''/repo'' (bundleSnippets ! 3) = Inr (Some imports) \<and>
        o_plugins (b_output b) =
          Some [BundleSize (Some ESM), Terser, imports,
                Replace [constToLet] None, Replace [letMerge] None])"
proof
  fix valid
  let ?c = "bundleSnippets ! 3"
  have h1: "o_format (r_output ?c) = Some ESM" by code_simp
  have h2: "r_external ?c = Some [''sinuous'', ''sinuous/htm'']" by code_simp
  have h3: "[''sinuous'', ''sinuous/htm''] \<noteq> []" by simp
  have h4: "o_plugins (r_output ?c) = None" by code_simp
  have h5: "o_file (r_output ?c) \<noteq> None" by code_simp
  have h6: "list_all (\<lambda>dep. regexp_ok valid (import_source dep)) [''sinuous'', ''sinuous/htm'']"
    by (simp add: regexp_ok_def plain_source_def special_def import_source_def)
  from import_pass_before_cleanup[OF h1 h2 h3, of valid "''/repo''"] h5 h6
  obtain b where b: "makeBundleConfigs valid ''/repo'' ?c = Inr b"
    and "\<exists>imports. pluginReplaceImportsESM valid ''/repo'' ?c = Inr (Some imports) \<and>
               o_plugins (b_output b) =
                 Some ([BundleSize (Some ESM), Terser, imports,
                        Replace [constToLet] None, Replace [letMerge] None] @
                       (case o_plugins (r_output ?c) of None \<Rightarrow> [] | Some ps \<Rightarrow> ps))"
    by blast
  with h1 h2 h4 show "o_format (r_output ?c) = Some ESM \<and>
     r_external ?c = Some [''sinuous'', ''sinuous/htm''] \<and>
     (\<exists>b imports.
        makeBundleConfigs valid ''/repo'' ?c = Inr b \<and>
        pluginReplaceImportsESM valid ''/repo'' ?c = Inr (Some imports) \<and>
        o_plugins (b_output b) =
          Some [BundleSize (Some ESM), Terser, imports,
                Replace [constToLet] None, Replace [letMerge] None])"
    by auto
qed

text \<open>
  The import rewrite plugin takes its \<^verbatim>\<open>sourcemap\<close> option from the job as
  \<^verbatim>\<open>mk\<close> left it.  For a job that sets no \<^verbatim>\<open>sourcemap\<close> the option is
  \<^verbatim>\<open>false\<close>, while the bundle config of the same job gets the default
  \<^verbatim>\<open>sourcemap: true\<close>.
\<close>

lemma import_pass_misses_default:
  assumes "o_format (r_output c) = Some ESM"
    and "r_external c = Some es" and "es \<noteq> []"
    and "o_sourcemap (r_output c) = None"
    and "makeBundleConfigs valid cwd c = Inr b"
  shows "\<exists>rules.
     pluginReplaceImportsESM valid cwd c = Inr (Some (Replace rules (Some False))) \<and>
     o_sourcemap (b_output b) = Some True"
proof -
  obtain p where p: "pluginReplaceImportsESM valid cwd c = Inr p"
    using assms(1,5) by (auto simp: makeBundleConfigs_def Let_def split: sum.splits)
  then have "\<exists>rules. p = Some (Replace rules (Some False))"
    using pluginReplaceImportsESM_eq[OF assms(2,3), of valid cwd] assms(4)
    by (auto split: option.splits if_splits)
  moreover have "o_sourcemap (b_output b) = Some True"
    using assms(1,4,5) p
    by (auto simp: makeBundleConfigs_def Let_def spread_def later_def no_output_def)
  ultimately show ?thesis using p by auto
qed

text \<open>
  Claim C3, at the esm job of \<^verbatim>\<open>hydrate\<close> (the fourth job).  The job sets no
  \<^verbatim>\<open>sourcemap\<close>, so its bundle config gets the default \<^verbatim>\<open>sourcemap: true\<close>; but
  the import rewrite plugin reads the option from the job as \<^verbatim>\<open>mk\<close> left it,
  before the default, and is built with \<^verbatim>\<open>sourcemap: false\<close>.
\<close>

theorem import_pass_sourcemap_off:
  "\<forall>valid.
     o_file (r_output (bundleSnippets ! 3)) = Some ''packages/sinuous/dist/esm/hydrate.js'' \<and>
     pluginReplaceImportsESM valid ''/repo'' (bundleSnippets ! 3) =
       Inr (Some (Replace [import_rule ''sinuous'' ''./sinuous.js'',
                           import_rule ''sinuous/htm'' ''./htm.js''] (Some False))) \<and>
     map_sum id (o_sourcemap \<circ> b_output) (makeBundleConfigs valid ''/repo'' (bundleSnippets ! 3)) =
       Inr (Some True)"
proof
  fix valid
  show "o_file (r_output (bundleSnippets ! 3)) = Some ''packages/sinuous/dist/esm/hydrate.js'' \<and>
     pluginReplaceImportsESM valid ''/repo'' (bundleSnippets ! 3) =
       Inr (Some (Replace [import_rule ''sinuous'' ''./sinuous.js'',
                           import_rule ''sinuous/htm'' ''./htm.js''] (Some False))) \<and>
     map_sum id (o_sourcemap \<circ> b_output) (makeBundleConfigs valid ''/repo'' (bundleSnippets ! 3)) =
       Inr (Some True)"
    by code_simp
qed

text \<open>
  Over the declared list, nine esm jobs have externals.  The plugin's option and
  the config's \<^verbatim>\<open>sourcemap\<close> differ for eight of them; they agree for
  \<^verbatim>\<open>sinuous-observable\<close>, which sets \<^verbatim>\<open>sourcemap: false\<close> itself.
\<close>

lemma import_sourcemaps_declared:
  "import_sourcemaps valid ''/repo'' =
     [(Some ''packages/sinuous/dist/esm/hydrate.js'', Some False, Some True),
      (Some ''packages/sinuous/dist/esm/template.js'', Some False, Some True),
      (Some ''packages/sinuous/dist/esm/data.js'', Some False, Some True),
      (Some ''packages/sinuous/dist/esm/render.js'', Some False, Some True),
      (Some ''packages/sinuous/dist/esm/map/mini.js'', Some False, Some True),
      (Some ''packages/sinuous/dist/esm/map.js'', Some False, Some True),
      (Some ''packages/sinuous/dist/esm/sinuous.js'', Some False, Some True),
      (Some ''packages/sinuous/dist/esm/sinuous-observable.js'', Some False, Some False),
      (Some ''packages/sinuous/dist/esm/jsx.js'', Some False, Some True)]"
  by code_simp

section \<open>Properties of the cleanup batteries\<close>

lemma starts_length: "starts p s \<Longrightarrow> length p \<le> length s"
  by (induction p s rule: starts.induct) auto

lemma matchp_fixed:
  "list_all (\<lambda>it. quant_of it = One) p \<Longrightarrow>
     matchp p s = (if starts p s then Some (map (\<lambda>c. [c]) (take (length p) s)) else None)"
proof (induction p arbitrary: s)
  case Nil
  then show ?case by simp
next
  case (Cons it p)
  obtain q c g where it: "it = Item q c g" by (cases it)
  with Cons.prems have q: "q = One" by simp
  show ?case
  proof (cases s)
    case Nil
    then show ?thesis by (simp add: it)
  next
    case (Cons x xs)
    with Cons.IH[of xs] Cons.prems show ?thesis by (simp add: it q)
  qed
qed

lemma concat_singletons: "concat (map (\<lambda>c. [c]) xs) = xs"
  by (induction xs) auto

lemma replace_all_fixed:
  assumes "fixed p"
  shows "replace_all p f s =
     (if starts p s
      then (case replace_all p f (drop (length p) s) of
              Inl e \<Rightarrow> Inl e | Inr rest \<Rightarrow> Inr (filled p f s @ rest))
      else (case s of [] \<Rightarrow> Inr []
            | c # cs \<Rightarrow> (case replace_all p f cs of
                           Inl e \<Rightarrow> Inl e | Inr rest \<Rightarrow> Inr (c # rest))))"
proof (cases "starts p s")
  case True
  from assms have m: "matchp p s = Some (map (\<lambda>c. [c]) (take (length p) s))"
    using True by (simp add: fixed_def matchp_fixed)
  from True have len: "length p \<le> length s" by (rule starts_length)
  with assms have ne: "take (length p) s \<noteq> []" by (auto simp: fixed_def)
  show ?thesis
    unfolding filled_def using True ne len
    by (subst replace_all.simps) (simp add: m concat_singletons min_absorb2)
next
  case False
  from assms have m: "matchp p s = None"
    using False by (simp add: fixed_def matchp_fixed)
  show ?thesis using False by (subst replace_all.simps) (simp add: m)
qed

lemma replace_all_fixed_total:
  assumes "fixed p"
  shows "\<exists>t. replace_all p f s = Inr t"
proof (induction s rule: length_induct)
  case (1 s)
  show ?case
  proof (cases "starts p s")
    case True
    then have "length p \<le> length s" by (rule starts_length)
    with assms have "length (drop (length p) s) < length s"
      by (cases p) (auto simp: fixed_def)
    with 1 obtain r where "replace_all p f (drop (length p) s) = Inr r" by blast
    then show ?thesis
      using True by (subst replace_all_fixed[OF assms]) simp
  next
    case False
    show ?thesis
    proof (cases s)
      case Nil
      with False show ?thesis by (subst replace_all_fixed[OF assms]) simp
    next
      case (Cons c cs)
      with 1 obtain r where "replace_all p f cs = Inr r" by auto
      with False Cons show ?thesis by (subst replace_all_fixed[OF assms]) simp
    qed
  qed
qed

lemma replace_all_gsub: "fixed p \<Longrightarrow> replace_all p f s = Inr (gsub p f s)"
  using replace_all_fixed_total[of p f s] by (auto simp: gsub_def)

lemma gsub_hit:
  assumes "fixed p" "starts p s"
  shows "gsub p f s = filled p f s @ gsub p f (drop (length p) s)"
proof -
  have "replace_all p f s = Inr (filled p f s @ gsub p f (drop (length p) s))"
    using assms(2) by (subst replace_all_fixed[OF assms(1)]) (simp add: replace_all_gsub[OF assms(1)])
  then show ?thesis by (simp add: gsub_def)
qed

lemma gsub_miss:
  assumes "fixed p" "\<not> starts p (c # cs)"
  shows "gsub p f (c # cs) = c # gsub p f cs"
proof -
  have "replace_all p f (c # cs) = Inr (c # gsub p f cs)"
    using assms(2) by (subst replace_all_fixed[OF assms(1)]) (simp add: replace_all_gsub[OF assms(1)])
  then show ?thesis by (simp add: gsub_def)
qed

lemma gsub_nil:
  assumes "fixed p"
  shows "gsub p f [] = []"
proof -
  from assms have "\<not> starts p []" by (cases p) (simp_all add: fixed_def)
  then have "replace_all p f [] = Inr []"
    by (subst replace_all_fixed[OF assms]) simp
  then show ?thesis by (simp add: gsub_def)
qed

lemma window:
  assumes p: "fixed p" and k: "keeps q p f"
  shows "1 \<le> i \<Longrightarrow> starts (drop i q) (gsub p f s) \<Longrightarrow> starts (drop i q) s"
proof (induction s arbitrary: i rule: length_induct)
  case (1 s)
  show ?case
  proof (cases "starts p s")
    case True
    with 1(3) have "starts (drop i q) (filled p f s @ gsub p f (drop (length p) s))"
      by (simp add: gsub_hit[OF p])
    with k 1(2) True show ?thesis unfolding keeps_def by blast
  next
    case False
    show ?thesis
    proof (cases s)
      case Nil
      with 1(3) show ?thesis by (simp add: gsub_nil[OF p])
    next
      case (Cons c cs)
      show ?thesis
      proof (cases "i < length q")
        case True
        then have d: "drop i q = q ! i # drop (Suc i) q" by (simp add: Cons_nth_drop_Suc)
        from 1(3) False Cons
        have a: "in_class (class_of (q ! i)) c" and b: "starts (drop (Suc i) q) (gsub p f cs)"
          by (simp_all add: gsub_miss[OF p] d)
        from 1(1) Cons b have "starts (drop (Suc i) q) cs" by simp
        with a show ?thesis by (simp add: d Cons)
      next
        case False
        then show ?thesis by simp
      qed
    qed
  qed
qed

lemma starts_Cons_drop:
  "q \<noteq> [] \<Longrightarrow> starts q (c # cs) = (in_class (class_of (hd q)) c \<and> starts (drop 1 q) cs)"
  by (cases q) auto

lemma unmatched_Cons:
  "unmatched q (c # cs) = (\<not> starts q (c # cs) \<and> unmatched q cs)"
proof -
  have "(\<forall>i. \<not> starts q (drop i (c # cs))) =
        (\<not> starts q (drop 0 (c # cs)) \<and> (\<forall>i. \<not> starts q (drop (Suc i) (c # cs))))"
    by (metis not0_implies_Suc)
  then show ?thesis by (simp add: unmatched_def)
qed

lemma unmatched_append:
  assumes "\<forall>j < length a. \<not> starts q (drop j a @ b)" "unmatched q b"
  shows "unmatched q (a @ b)"
  unfolding unmatched_def
proof
  fix i
  show "\<not> starts q (drop i (a @ b))"
  proof (cases "i < length a")
    case True
    with assms(1) show ?thesis by simp
  next
    case False
    with assms(2) show ?thesis by (simp add: unmatched_def)
  qed
qed

lemma unmatched_drop: "unmatched q s \<Longrightarrow> unmatched q (drop n s)"
  by (simp add: unmatched_def)

lemma unmatched_self:
  assumes p: "fixed p" and k: "keeps p p f" and b: "blocks p p f"
  shows "unmatched p (gsub p f s)"
proof (induction s rule: length_induct)
  case (1 s)
  have pne: "p \<noteq> []" using p by (simp add: fixed_def)
  show ?case
  proof (cases "starts p s")
    case True
    then have "length p \<le> length s" by (rule starts_length)
    with pne have "length (drop (length p) s) < length s" by (cases p) auto
    with 1 have "unmatched p (gsub p f (drop (length p) s))" by blast
    moreover from b True
    have "\<forall>j < length (filled p f s). \<not> starts p (drop j (filled p f s) @ gsub p f (drop (length p) s))"
      unfolding blocks_def by blast
    ultimately show ?thesis
      using True by (simp add: gsub_hit[OF p] unmatched_append)
  next
    case False
    show ?thesis
    proof (cases s)
      case Nil
      have "gsub p f [] = []" by (rule gsub_nil[OF p])
      with Nil pne show ?thesis by (cases p) (simp_all add: unmatched_def)
    next
      case (Cons c cs)
      with 1 have ih: "unmatched p (gsub p f cs)" by simp
      have "\<not> starts p (c # gsub p f cs)"
      proof
        assume "starts p (c # gsub p f cs)"
        then have a: "in_class (class_of (hd p)) c" and d: "starts (drop 1 p) (gsub p f cs)"
          by (simp_all add: starts_Cons_drop[OF pne])
        from window[OF p k _ d] have "starts (drop 1 p) cs" by simp
        with a have "starts p (c # cs)" by (simp add: starts_Cons_drop[OF pne])
        with False Cons show False by simp
      qed
      with ih False Cons show ?thesis by (simp add: gsub_miss[OF p] unmatched_Cons)
    qed
  qed
qed

lemma unmatched_cross:
  assumes p: "fixed p" and qne: "q \<noteq> []" and k: "keeps q p f" and b: "blocks q p f"
  shows "unmatched q s \<Longrightarrow> unmatched q (gsub p f s)"
proof (induction s rule: length_induct)
  case (1 s)
  have pne: "p \<noteq> []" using p by (simp add: fixed_def)
  show ?case
  proof (cases "starts p s")
    case True
    then have "length p \<le> length s" by (rule starts_length)
    with pne have "length (drop (length p) s) < length s" by (cases p) auto
    with 1 have "unmatched q (gsub p f (drop (length p) s))"
      using unmatched_drop by blast
    moreover from b True
    have "\<forall>j < length (filled p f s). \<not> starts q (drop j (filled p f s) @ gsub p f (drop (length p) s))"
      unfolding blocks_def by blast
    ultimately show ?thesis
      using True by (simp add: gsub_hit[OF p] unmatched_append)
  next
    case False
    show ?thesis
    proof (cases s)
      case Nil
      with qne show ?thesis by (cases q) (simp_all add: gsub_nil[OF p] unmatched_def)
    next
      case (Cons c cs)
      with 1 have ih: "unmatched q (gsub p f cs)" and n0: "\<not> starts q (c # cs)"
        by (simp_all add: unmatched_Cons)
      have "\<not> starts q (c # gsub p f cs)"
      proof
        assume "starts q (c # gsub p f cs)"
        then have a: "in_class (class_of (hd q)) c" and d: "starts (drop 1 q) (gsub p f cs)"
          by (simp_all add: starts_Cons_drop[OF qne])
        from window[OF p k _ d] have "starts (drop 1 q) cs" by simp
        with a have "starts q (c # cs)" by (simp add: starts_Cons_drop[OF qne])
        with n0 show False by simp
      qed
      with ih False Cons show ?thesis by (simp add: gsub_miss[OF p] unmatched_Cons)
    qed
  qed
qed

lemma gsub_unmatched:
  assumes p: "fixed p"
  shows "unmatched p s \<Longrightarrow> gsub p f s = s"
proof (induction s)
  case Nil
  show ?case by (simp add: gsub_nil[OF p])
next
  case (Cons c cs)
  then show ?case by (simp add: unmatched_Cons gsub_miss[OF p])
qed

lemma fixed_patterns: "fixed p_const" "fixed p_let"
  by (simp_all add: fixed_def p_const_def p_let_def lit_def)

lemma length_patterns: "length p_const = 8" "length p_let = 10"
  by (simp_all add: p_const_def p_let_def lit_def)

lemma long8: "8 \<le> length s \<Longrightarrow> \<exists>a b c d e f g h r. s = a # b # c # d # e # f # g # h # r"
  by (auto simp: numeral_eq_Suc Suc_le_length_iff)

lemma long10:
  "10 \<le> length s \<Longrightarrow> \<exists>a b c d e f g h i j r. s = a # b # c # d # e # f # g # h # i # j # r"
  by (auto simp: numeral_eq_Suc Suc_le_length_iff)

lemma starts_const:
  "starts p_const s \<longleftrightarrow> (\<exists>x r. s = ''const '' @ x # ''='' @ r \<and> in_class az x)"
proof
  assume a: "starts p_const s"
  then have "8 \<le> length s" using starts_length length_patterns(1) by metis
  from long8[OF this]
  obtain a b c d e f g h r where s: "s = a # b # c # d # e # f # g # h # r"
    by (elim exE)
  with a show "\<exists>x r. s = ''const '' @ x # ''='' @ r \<and> in_class az x"
    by (simp add: p_const_def lit_def)
next
  assume "\<exists>x r. s = ''const '' @ x # ''='' @ r \<and> in_class az x"
  then show "starts p_const s" by (auto simp: p_const_def lit_def)
qed

lemma starts_let:
  "starts p_let s \<longleftrightarrow> (\<exists>x r. s = ''let '' @ x # '';let '' @ r \<and> in_class az x)"
proof
  assume a: "starts p_let s"
  then have "10 \<le> length s" using starts_length length_patterns(2) by metis
  from long10[OF this]
  obtain a b c d e f g h i j r where s: "s = a # b # c # d # e # f # g # h # i # j # r"
    by (elim exE)
  with a show "\<exists>x r. s = ''let '' @ x # '';let '' @ r \<and> in_class az x"
    by (simp add: p_let_def lit_def)
next
  assume "\<exists>x r. s = ''let '' @ x # '';let '' @ r \<and> in_class az x"
  then show "starts p_let s" by (auto simp: p_let_def lit_def)
qed

lemma filled_const: "filled p_const f_const (''const '' @ x # ''='' @ r) = ''let '' @ x # ''=''"
  by (simp add: filled_def instantiate_def capture_def p_const_def f_const_def lit_def)

lemma filled_let: "filled p_let f_let (''let '' @ x # '';let '' @ r) = ''let '' @ x # '',''"
  by (simp add: filled_def instantiate_def capture_def p_let_def f_let_def lit_def)

lemma upto8: "1 \<le> (i::nat) \<Longrightarrow> i = 1 \<or> i = 2 \<or> i = 3 \<or> i = 4 \<or> i = 5 \<or> i = 6 \<or> i = 7 \<or> 8 \<le> i"
  by arith

lemma upto10: "1 \<le> (i::nat) \<Longrightarrow>
   i = 1 \<or> i = 2 \<or> i = 3 \<or> i = 4 \<or> i = 5 \<or> i = 6 \<or> i = 7 \<or> i = 8 \<or> i = 9 \<or> 10 \<le> i"
  by arith

lemma below6: "(j::nat) < 6 \<Longrightarrow> j = 0 \<or> j = 1 \<or> j = 2 \<or> j = 3 \<or> j = 4 \<or> j = 5"
  by arith

lemma keeps_const_const: "keeps p_const p_const f_const"
  unfolding keeps_def
proof (intro allI impI)
  fix s t i
  assume i: "1 \<le> (i::nat)" and s: "starts p_const s"
    and w: "starts (drop i p_const) (filled p_const f_const s @ t)"
  from s obtain x r where sx: "s = ''const '' @ x # ''='' @ r" and x: "in_class az x"
    unfolding starts_const by blast
  from w have w': "starts (drop i p_const) (''let '' @ x # ''='' @ t)"
    unfolding sx filled_const by simp
  from upto8[OF i] w' show "starts (drop i p_const) s"
    unfolding sx by (elim disjE) (simp_all add: p_const_def lit_def az_def)
qed


lemma blocks_const_const: "blocks p_const p_const f_const"
  unfolding blocks_def
proof (intro allI impI)
  fix s t j
  assume s: "starts p_const s" and j: "j < length (filled p_const f_const s)"
  from s obtain x r where sx: "s = ''const '' @ x # ''='' @ r" and x: "in_class az x"
    unfolding starts_const by blast
  from j have "j < 6" unfolding sx filled_const by simp
  from below6[OF this] show "\<not> starts p_const (drop j (filled p_const f_const s) @ t)"
    unfolding sx filled_const by (elim disjE) (simp_all add: p_const_def lit_def)
qed

lemma keeps_let_let: "keeps p_let p_let f_let"
  unfolding keeps_def
proof (intro allI impI)
  fix s t i
  assume i: "1 \<le> (i::nat)" and s: "starts p_let s"
    and w: "starts (drop i p_let) (filled p_let f_let s @ t)"
  from s obtain x r where sx: "s = ''let '' @ x # '';let '' @ r" and x: "in_class az x"
    unfolding starts_let by blast
  from w have w': "starts (drop i p_let) (''let '' @ x # '','' @ t)"
    unfolding sx filled_let by simp
  from upto10[OF i] w' show "starts (drop i p_let) s"
    unfolding sx by (elim disjE) (simp_all add: p_let_def lit_def az_def)
qed

lemma blocks_let_let: "blocks p_let p_let f_let"
  unfolding blocks_def
proof (intro allI impI)
  fix s t j
  assume s: "starts p_let s" and j: "j < length (filled p_let f_let s)"
  from s obtain x r where sx: "s = ''let '' @ x # '';let '' @ r" and x: "in_class az x"
    unfolding starts_let by blast
  from j have "j < 6" unfolding sx filled_let by simp
  from below6[OF this] show "\<not> starts p_let (drop j (filled p_let f_let s) @ t)"
    unfolding sx filled_let by (elim disjE) (simp_all add: p_let_def lit_def)
qed

lemma keeps_const_let: "keeps p_const p_let f_let"
  unfolding keeps_def
proof (intro allI impI)
  fix s t i
  assume i: "1 \<le> (i::nat)" and s: "starts p_let s"
    and w: "starts (drop i p_const) (filled p_let f_let s @ t)"
  from s obtain x r where sx: "s = ''let '' @ x # '';let '' @ r" and x: "in_class az x"
    unfolding starts_let by blast
  from w have w': "starts (drop i p_const) (''let '' @ x # '','' @ t)"
    unfolding sx filled_let by simp
  from upto8[OF i] w' show "starts (drop i p_const) s"
    unfolding sx by (elim disjE) (simp_all add: p_const_def lit_def az_def)
qed

lemma blocks_const_let: "blocks p_const p_let f_let"
  unfolding blocks_def
proof (intro allI impI)
  fix s t j
  assume s: "starts p_let s" and j: "j < length (filled p_let f_let s)"
  from s obtain x r where sx: "s = ''let '' @ x # '';let '' @ r" and x: "in_class az x"
    unfolding starts_let by blast
  from j have "j < 6" unfolding sx filled_let by simp
  from below6[OF this] show "\<not> starts p_const (drop j (filled p_let f_let s) @ t)"
    unfolding sx filled_let by (elim disjE) (simp_all add: p_const_def lit_def)
qed

lemma esm_rules:
  "constToLet = \<lparr>search = Rx p_const, eachMatch = f_const\<rparr>"
  "letMerge = \<lparr>search = Rx p_let, eachMatch = f_let\<rparr>"
  by (simp_all add: constToLet_def letMerge_def p_const_def p_let_def f_const_def f_let_def)

lemma esm_battery_eq: "apply_battery regexp esm_battery text = Inr (esm_clean text)"
proof -
  have 1: "replace_all p_const f_const text = Inr (gsub p_const f_const text)"
    by (rule replace_all_gsub[OF fixed_patterns(1)])
  have 2: "replace_all p_let f_let (gsub p_const f_const text) = Inr (esm_clean text)"
    unfolding esm_clean_def by (rule replace_all_gsub[OF fixed_patterns(2)])
  show ?thesis
    by (simp add: esm_battery_def esm_rules pattern_of_def 1 2)
qed

lemma unmatched_matchp: "fixed q \<Longrightarrow> unmatched q s \<Longrightarrow> matchp q (drop i s) = None"
  by (simp add: unmatched_def fixed_def matchp_fixed)

lemma esm_clean_unmatched: "unmatched p_const (esm_clean text)" "unmatched p_let (esm_clean text)"
proof -
  have "unmatched p_const (gsub p_const f_const text)"
    by (rule unmatched_self[OF fixed_patterns(1) keeps_const_const blocks_const_const])
  then show "unmatched p_const (esm_clean text)"
    unfolding esm_clean_def
    using unmatched_cross[OF fixed_patterns(2) _ keeps_const_let blocks_const_let]
    by (simp add: p_const_def)
  show "unmatched p_let (esm_clean text)"
    unfolding esm_clean_def
    by (rule unmatched_self[OF fixed_patterns(2) keeps_let_let blocks_let_let])
qed

lemma esm_clean_idem: "esm_clean (esm_clean text) = esm_clean text"
proof -
  have "gsub p_const f_const (esm_clean text) = esm_clean text"
    by (rule gsub_unmatched[OF fixed_patterns(1) esm_clean_unmatched(1)])
  moreover have "gsub p_let f_let (esm_clean text) = esm_clean text"
    by (rule gsub_unmatched[OF fixed_patterns(2) esm_clean_unmatched(2)])
  ultimately show ?thesis by (simp add: esm_clean_def[of "esm_clean text"])
qed

text \<open>
  Claim C6 as stated fails for the umd/iife battery, under the engine of the
  spec.  In the text below the first application rewrites the
  \<^verbatim>\<open>defineProperty\<close> call to \<^verbatim>\<open>a.b=for\<close>; the \<^verbatim>\<open>for\<close> it leaves meets the
  \<^verbatim>\<open>(var i=arguments.length,...\<close> that follows, so the arguments-loop rule,
  which matched nothing in the first application, matches in the second and
  changes the text again.  This holds for the pass of the two rules alone and
  for the whole umd/iife chain.  In each application at most one of the two
  rules finds a match, so it makes no difference whether the second rule of the
  pass scans the text the first one left or the text the pass began with.
  (No rule here has a computed pattern, so the
  stand-in for the \<^verbatim>\<open>RegExp\<close> constructor plays no part.)
\<close>

theorem umd_iife_battery_not_idempotent:
  "apply_battery (lit 0) umd_iife_battery umd_text =
     Inr ''a.b=for(var i=arguments.length,x=new Array(i);i--;)x[i]=arguments[i]'' \<and>
   apply_battery (lit 0) umd_iife_battery
       ''a.b=for(var i=arguments.length,x=new Array(i);i--;)x[i]=arguments[i]'' =
     Inr ''a.b=var x=Array.from(arguments)'' \<and>
   apply_rules (lit 0) [argumentsLoop, defineProperty] umd_text =
     Inr ''a.b=for(var i=arguments.length,x=new Array(i);i--;)x[i]=arguments[i]'' \<and>
   apply_rules (lit 0) [argumentsLoop, defineProperty]
       ''a.b=for(var i=arguments.length,x=new Array(i);i--;)x[i]=arguments[i]'' =
     Inr ''a.b=var x=Array.from(arguments)''"
  unfolding umd_text_def by code_simp


text \<open>
  Claim C6, amended.  The esm battery (const-to-let, then let-merging) is
  idempotent on every text: one application succeeds; in its result neither
  pattern matches at any position; and a second application returns the result
  unchanged.
\<close>

theorem esm_battery_idempotent:
  "\<exists>clean. apply_battery regexp esm_battery text = Inr clean \<and>
     apply_battery regexp esm_battery clean = Inr clean \<and>
     (\<forall>i. matchp (pattern_of regexp (search constToLet)) (drop i clean) = None) \<and>
     (\<forall>i. matchp (pattern_of regexp (search letMerge)) (drop i clean) = None)"
proof (intro exI[of _ "esm_clean text"] conjI allI)
  show "apply_battery regexp esm_battery text = Inr (esm_clean text)"
    by (rule esm_battery_eq)
  show "apply_battery regexp esm_battery (esm_clean text) = Inr (esm_clean text)"
    by (simp add: esm_battery_eq esm_clean_idem)
  fix i
  show "matchp (pattern_of regexp (search constToLet)) (drop i (esm_clean text)) = None"
    using unmatched_matchp[OF fixed_patterns(1) esm_clean_unmatched(1)]
    by (simp add: esm_rules pattern_of_def)
  show "matchp (pattern_of regexp (search letMerge)) (drop i (esm_clean text)) = None"
    using unmatched_matchp[OF fixed_patterns(2) esm_clean_unmatched(2)]
    by (simp add: esm_rules pattern_of_def)
qed

end
